theory Spec2Isabelle
  imports Complex_Main
begin

section \<open>JavaScript strings and values\<close>

text \<open>
  A JavaScript string is a sequence of UTF-16 code units; \<open>length\<close> counts code units
  and the regular expressions of \<^verbatim>\<open>llmService.ts\<close> (none has the \<^verbatim>\<open>u\<close> flag) test code
  units. A string is therefore a list of code-unit numbers. The Chinese characters of the
  source are written by their code units.
\<close>

type_synonym jstring = "nat list"

definition asc :: "string \<Rightarrow> jstring" where
  "asc s = map of_char s"

text \<open>Decimal rendering of a non-negative integer, as a template literal renders it.\<close>

fun show_nat :: "nat \<Rightarrow> jstring" where
  "show_nat n = (if n < 10 then [48 + n] else show_nat (n div 10) @ [48 + n mod 10])"

declare show_nat.simps [simp del]

text \<open>
  The values a row, a cell or a parsed argument can be. A number is kept as the exact
  rational it denotes; no function of \<^verbatim>\<open>llmService.ts\<close> computes with the numbers of its
  data, it only asks for their type and their truthiness. An object is the list of its
  own enumerable properties in enumeration order. A function, which a cell holds when a
  property read has reached a method of a prototype, is kept as the text \<^verbatim>\<open>String\<close> gives
  for it.
\<close>

datatype jsval =
    JUndefined
  | JNull
  | JBool bool
  | JNum rat
  | JStr jstring
  | JArr "jsval list"
  | JObj "(jstring \<times> jsval) list"
  | JFunction jstring

text \<open>
  An array-index key: the canonical decimal numeral of an integer below \<open>2^32 - 1\<close>.
\<close>

definition is_digit :: "nat \<Rightarrow> bool" where
  "is_digit c = (48 \<le> c \<and> c \<le> 57)"

definition digits_value :: "jstring \<Rightarrow> nat" where
  "digits_value ds = foldl (\<lambda>acc d. acc * 10 + (d - 48)) 0 ds"

definition array_index :: "jstring \<Rightarrow> nat option" where
  "array_index k =
     (if k \<noteq> [] \<and> list_all is_digit k \<and> (hd k \<noteq> 48 \<or> length k = 1) \<and> digits_value k < 4294967295
      then Some (digits_value k) else None)"

text \<open>
  \<^verbatim>\<open>Object.keys(row)\<close>, and \<^verbatim>\<open>value[key]\<close> for a key that is an own property or is on no
  prototype: an array has its indices as keys, and a read sees the own properties of an
  object and the elements and the length of an array or a string. These are the reads of
  \<^verbatim>\<open>llmService.ts\<close>: the keys of a row are its own, and \<^verbatim>\<open>query\<close> is a method of no
  standard prototype.
\<close>

fun own_entries :: "jsval \<Rightarrow> (jstring \<times> jsval) list" where
  "own_entries (JObj kvs) = kvs"
| "own_entries (JArr xs) = zip (map show_nat [0..<length xs]) xs"
| "own_entries _ = []"

definition object_keys :: "jsval \<Rightarrow> jstring list" where
  "object_keys v = map fst (own_entries v)"

fun get_prop :: "jsval \<Rightarrow> jstring \<Rightarrow> jsval" where
  "get_prop (JObj kvs) k = (case map_of kvs k of Some x \<Rightarrow> x | None \<Rightarrow> JUndefined)"
| "get_prop (JArr xs) k =
     (if k = asc ''length'' then JNum (of_nat (length xs))
      else case array_index k of
             Some i \<Rightarrow> if i < length xs then xs ! i else JUndefined
           | None \<Rightarrow> JUndefined)"
| "get_prop (JStr s) k =
     (if k = asc ''length'' then JNum (of_nat (length s))
      else case array_index k of
             Some i \<Rightarrow> if i < length s then JStr [s ! i] else JUndefined
           | None \<Rightarrow> JUndefined)"
| "get_prop v k = JUndefined"

definition nullish :: "jsval \<Rightarrow> bool" where
  "nullish v = (v = JNull \<or> v = JUndefined)"

fun join_with :: "jstring \<Rightarrow> jstring list \<Rightarrow> jstring" where
  "join_with sep [] = []"
| "join_with sep [x] = x"
| "join_with sep (x # y # ys) = x @ sep @ join_with sep (y # ys)"

text \<open>
  The built-ins whose result depends on floating-point formatting, on values outside
  \<^typ>\<open>jsval\<close> or on the JavaScript engine are parameters: \<open>stringify\<close> is
  \<^verbatim>\<open>JSON.stringify\<close> on data (\<open>None\<close> when it throws), \<open>number_to_string\<close> is \<^verbatim>\<open>String\<close> on a
  number, \<open>error_text\<close> is the \<^verbatim>\<open>message\<close> of the error the engine raises when a property
  of \<^verbatim>\<open>null\<close> or \<^verbatim>\<open>undefined\<close> is read, when something that is no function is called, or
  when \<^verbatim>\<open>JSON.stringify\<close> throws, and \<open>inherited v k\<close> is what reading \<open>k\<close> gives on a
  value \<open>v\<close> that has no such element or own key: a method of a prototype such as
  \<^verbatim>\<open>toString\<close>, or \<^verbatim>\<open>undefined\<close>.
\<close>

datatype type_error =
    ReadOf jsval jstring
  | NotAFunction jstring
  | NotSerializable jsval

record js_env =
  stringify :: "jsval \<Rightarrow> jstring option"
  number_to_string :: "rat \<Rightarrow> jstring"
  error_text :: "type_error \<Rightarrow> jstring"
  inherited :: "jsval \<Rightarrow> jstring \<Rightarrow> jsval"

text \<open>\<^verbatim>\<open>value[key]\<close> for any key, on a value that is neither \<^verbatim>\<open>null\<close> nor \<^verbatim>\<open>undefined\<close>.\<close>

fun has_own :: "jsval \<Rightarrow> jstring \<Rightarrow> bool" where
  "has_own (JObj kvs) k = (k \<in> set (map fst kvs))"
| "has_own (JArr xs) k =
     (k = asc ''length'' \<or> (case array_index k of Some i \<Rightarrow> i < length xs | None \<Rightarrow> False))"
| "has_own (JStr s) k =
     (k = asc ''length'' \<or> (case array_index k of Some i \<Rightarrow> i < length s | None \<Rightarrow> False))"
| "has_own v k = False"

definition read_prop :: "js_env \<Rightarrow> jsval \<Rightarrow> jstring \<Rightarrow> jsval" where
  "read_prop e v k = (if has_own v k then get_prop v k else inherited e v k)"

text \<open>\<^verbatim>\<open>String(v)\<close>.\<close>

fun js_String :: "(rat \<Rightarrow> jstring) \<Rightarrow> jsval \<Rightarrow> jstring" where
  "js_String nts JUndefined = asc ''undefined''"
| "js_String nts JNull = asc ''null''"
| "js_String nts (JBool b) = (if b then asc ''true'' else asc ''false'')"
| "js_String nts (JNum r) = nts r"
| "js_String nts (JStr s) = s"
| "js_String nts (JArr xs) =
     join_with (asc '','') (map (\<lambda>x. if x = JNull \<or> x = JUndefined then [] else js_String nts x) xs)"
| "js_String nts (JObj kvs) = asc ''[object Object]''"
| "js_String nts (JFunction src) = src"

section \<open>JavaScript numbers\<close>

text \<open>
  A JavaScript number is an IEEE 754 binary64 value, and every arithmetic operation
  returns the exact result rounded to the nearest such value, ties to the even
  significand. A finite number is a real here, and \<open>binary64\<close> rounds a real to 53
  significant bits: \<open>exponent x\<close> is the \<open>e\<close> with \<open>2^e \<le> x < 2^(e+1)\<close>, and the
  significand is the real divided by \<open>2^(e-52)\<close>, rounded to an integer. The exponent
  range of the format is not modelled: the values computed in \<^verbatim>\<open>llmService.ts\<close> are zero
  or lie between \<open>2^(-60)\<close> and \<open>2^60\<close>, far from the subnormal numbers and from overflow.
\<close>

definition round_ties_even :: "real \<Rightarrow> int" where
  "round_ties_even x =
     (let f = \<lfloor>x\<rfloor>; d = x - of_int f
      in if d < 1 / 2 then f else if 1 / 2 < d then f + 1 else if even f then f else f + 1)"

fun bit_length :: "nat \<Rightarrow> nat" where
  "bit_length n = (if n = 0 then 0 else Suc (bit_length (n div 2)))"

declare bit_length.simps [simp del]

definition pow2 :: "int \<Rightarrow> real" where
  "pow2 k = (if 0 \<le> k then 2 ^ nat k else 1 / 2 ^ nat (- k))"

definition exponent :: "real \<Rightarrow> int" where
  "exponent x =
     (if 1 \<le> x then int (bit_length (nat \<lfloor>x\<rfloor>)) - 1
      else - int (bit_length (nat (\<lceil>1 / x\<rceil> - 1))))"

definition binary64 :: "real \<Rightarrow> real" where
  "binary64 x =
     (if x = 0 then 0
      else
        let ulp = pow2 (exponent \<bar>x\<bar> - 52)
        in sgn x * of_int (round_ties_even (\<bar>x\<bar> / ulp)) * ulp)"

text \<open>
  The operators \<^verbatim>\<open>+\<close>, \<^verbatim>\<open>-\<close>, \<^verbatim>\<open>*\<close> and \<^verbatim>\<open>/\<close> on numbers. No divisor of
  \<^verbatim>\<open>calculateAdaptiveBatchSize\<close> is zero.
\<close>

definition js_add :: "real \<Rightarrow> real \<Rightarrow> real" where
  "js_add x y = binary64 (x + y)"

definition js_sub :: "real \<Rightarrow> real \<Rightarrow> real" where
  "js_sub x y = binary64 (x - y)"

definition js_mul :: "real \<Rightarrow> real \<Rightarrow> real" where
  "js_mul x y = binary64 (x * y)"

definition js_div :: "real \<Rightarrow> real \<Rightarrow> real" where
  "js_div x y = binary64 (x / y)"

text \<open>The relative error of one rounding is at most \<open>2^(-53)\<close>.\<close>

definition unit_roundoff :: real where
  "unit_roundoff = 1 / 2 ^ 53"

section \<open>Adaptive batch sizer\<close>

text \<open>
  \<^verbatim>\<open>calculateAdaptiveBatchSize\<close> (llmService.ts, lines 131 to 200). The five counters of the
  sampling loop are a record; the loop over the sampled rows and the inner loop over the
  keys of a row are recursive functions that thread it. A counter is a sum of at most 20
  array lengths or string lengths; such sums are far below \<open>2^53\<close>, up to which the
  additions of integers are exact, so the counters are natural numbers. The arithmetic
  after the loop (lines 172 to 199) is done in binary64: the decimal literals \<^verbatim>\<open>0.4\<close>,
  \<^verbatim>\<open>0.3\<close> and \<^verbatim>\<open>0.5\<close> denote the nearest binary64 values, every operator rounds, and
  \<^verbatim>\<open>Math.min\<close>, \<^verbatim>\<open>Math.max\<close> and \<^verbatim>\<open>Math.floor\<close> are exact.
\<close>

record totals =
  totalFields :: nat
  totalRowChars :: nat
  totalCells :: nat
  textCells :: nat
  longTextCells :: nat

definition zero_totals :: totals where
  "zero_totals = \<lparr>totalFields = 0, totalRowChars = 0, totalCells = 0, textCells = 0,
     longTextCells = 0\<rparr>"

text \<open>The negation of \<^verbatim>\<open>!row || typeof row !== 'object'\<close>.\<close>

fun is_row_object :: "jsval \<Rightarrow> bool" where
  "is_row_object (JObj kvs) = True"
| "is_row_object (JArr xs) = True"
| "is_row_object _ = False"

fun count_cell :: "jsval \<Rightarrow> totals \<Rightarrow> totals" where
  "count_cell JNull t = t"
| "count_cell JUndefined t = t"
| "count_cell (JStr s) t =
     (let t1 = t\<lparr>totalCells := totalCells t + 1, textCells := textCells t + 1\<rparr>
      in if length s \<ge> 256 then t1\<lparr>longTextCells := longTextCells t1 + 1\<rparr> else t1)"
| "count_cell v t = t\<lparr>totalCells := totalCells t + 1\<rparr>"

fun scan_cells :: "jsval \<Rightarrow> jstring list \<Rightarrow> totals \<Rightarrow> totals" where
  "scan_cells row [] t = t"
| "scan_cells row (key # keys) t = scan_cells row keys (count_cell (get_prop row key) t)"

definition row_string :: "js_env \<Rightarrow> jsval \<Rightarrow> jstring" where
  "row_string e row =
     (case stringify e row of
        Some s \<Rightarrow> s
      | None \<Rightarrow>
          join_with (asc '' '')
            (map (\<lambda>k. js_String (number_to_string e)
                         (if nullish (get_prop row k) then JStr [] else get_prop row k))
                 (object_keys row)))"

fun scan_rows :: "js_env \<Rightarrow> jsval list \<Rightarrow> totals \<Rightarrow> totals" where
  "scan_rows e [] t = t"
| "scan_rows e (row # rows) t =
     (if \<not> is_row_object row then scan_rows e rows t
      else
        let keys = object_keys row;
            t1 = t\<lparr>totalFields := totalFields t + length keys\<rparr>;
            t2 = t1\<lparr>totalRowChars := totalRowChars t1 + length (row_string e row)\<rparr>
        in scan_rows e rows (scan_cells row keys t2))"

text \<open>Lines 172 to 199: from the averages and the two ratios to the batch size.\<close>

definition batch_from_metrics :: "real \<Rightarrow> real \<Rightarrow> real \<Rightarrow> real \<Rightarrow> int" where
  "batch_from_metrics avgFields avgRowLen R_text R_long =
     (let F_NORM = 40;
          L_NORM = 4000;
          Cf = min (js_div avgFields F_NORM) 1;
          Cl = min (js_div avgRowLen L_NORM) 1;
          ALPHA = binary64 0.5;
          BETA = binary64 0.5;
          Ct = js_add (js_mul ALPHA R_text) (js_mul BETA R_long);
          W_F = binary64 0.4;
          W_L = binary64 0.3;
          W_T = binary64 0.3;
          C = min (max (js_add (js_add (js_mul W_F Cf) (js_mul W_L Cl)) (js_mul W_T Ct)) 0) 1;
          B_MIN = 5;
          B_MAX = 100;
          B = js_sub B_MAX (js_mul (js_sub B_MAX B_MIN) C);
          batchSize = \<lfloor>B\<rfloor>
      in max B_MIN (min batchSize B_MAX))"

definition calculateAdaptiveBatchSize :: "js_env \<Rightarrow> jsval list \<Rightarrow> int" where
  "calculateAdaptiveBatchSize e data =
     (if data = [] then 10
      else
        let sampleCount = min (length data) 20;
            t = scan_rows e (take sampleCount data) zero_totals
        in if sampleCount = 0 then 10
           else
             let avgFields = js_div (real (totalFields t)) (real sampleCount);
                 avgRowLen = js_div (real (totalRowChars t)) (real sampleCount);
                 R_text = (if totalCells t > 0 then js_div (real (textCells t)) (real (totalCells t))
                           else 0);
                 R_long = (if totalCells t > 0 then js_div (real (longTextCells t)) (real (totalCells t))
                           else 0)
             in batch_from_metrics avgFields avgRowLen R_text R_long)"

text \<open>The value of \<^verbatim>\<open>C\<close> (lines 179 to 192) at the four metrics.\<close>

definition complexity :: "real \<Rightarrow> real \<Rightarrow> real \<Rightarrow> real \<Rightarrow> real" where
  "complexity avgFields avgRowLen R_text R_long =
     min (max (js_add (js_add (js_mul (binary64 0.4) (min (js_div avgFields 40) 1))
                              (js_mul (binary64 0.3) (min (js_div avgRowLen 4000) 1)))
                      (js_mul (binary64 0.3)
                         (js_add (js_mul (binary64 0.5) R_text) (js_mul (binary64 0.5) R_long)))) 0) 1"

text \<open>
  The batch sizer as section 4.6 of the specification words it, in exact arithmetic: the
  sample is the first \<open>min rowCount 20\<close> rows; a row is serialized as a flat key/value
  text or, when that fails, as its values turned into strings and put together (with a
  space between them, as line 153 has it; the specification names no separator); the
  ratios count the cells that are not null; the composite complexity is clamped to the unit
  interval.
\<close>

definition spec_sample :: "jsval list \<Rightarrow> jsval list" where
  "spec_sample data = take (min (length data) 20) data"

definition spec_cells :: "jsval \<Rightarrow> jsval list" where
  "spec_cells row =
     (if is_row_object row then filter (\<lambda>v. \<not> nullish v) (map (get_prop row) (object_keys row))
      else [])"

definition spec_is_text :: "jsval \<Rightarrow> bool" where
  "spec_is_text v = (case v of JStr s \<Rightarrow> True | _ \<Rightarrow> False)"

definition spec_is_long_text :: "jsval \<Rightarrow> bool" where
  "spec_is_long_text v = (case v of JStr s \<Rightarrow> length s \<ge> 256 | _ \<Rightarrow> False)"

definition spec_field_count :: "jsval \<Rightarrow> nat" where
  "spec_field_count row = (if is_row_object row then length (object_keys row) else 0)"

fun spec_value_text :: "js_env \<Rightarrow> jsval \<Rightarrow> jstring" where
  "spec_value_text e JNull = []"
| "spec_value_text e JUndefined = []"
| "spec_value_text e v = js_String (number_to_string e) v"

definition spec_serialized :: "js_env \<Rightarrow> jsval \<Rightarrow> jstring" where
  "spec_serialized e row =
     (case stringify e row of
        Some flat \<Rightarrow> flat
      | None \<Rightarrow> join_with (asc '' '') (map (spec_value_text e) (map (get_prop row) (object_keys row))))"

definition spec_row_len :: "js_env \<Rightarrow> jsval \<Rightarrow> nat" where
  "spec_row_len e row = (if is_row_object row then length (spec_serialized e row) else 0)"

definition spec_avgFields :: "jsval list \<Rightarrow> real" where
  "spec_avgFields data =
     real (sum_list (map spec_field_count (spec_sample data))) / real (length (spec_sample data))"

definition spec_avgRowLen :: "js_env \<Rightarrow> jsval list \<Rightarrow> real" where
  "spec_avgRowLen e data =
     real (sum_list (map (spec_row_len e) (spec_sample data))) / real (length (spec_sample data))"

definition spec_ratio :: "(jsval \<Rightarrow> bool) \<Rightarrow> jsval list \<Rightarrow> real" where
  "spec_ratio P data =
     (let cells = concat (map spec_cells (spec_sample data))
      in if cells = [] then 0 else real (length (filter P cells)) / real (length cells))"

definition clamp01 :: "real \<Rightarrow> real" where
  "clamp01 x = (if x < 0 then 0 else if x > 1 then 1 else x)"

definition spec_complexity :: "js_env \<Rightarrow> jsval list \<Rightarrow> real" where
  "spec_complexity e data =
     clamp01 (0.4 * min (spec_avgFields data / 40) 1
            + 0.3 * min (spec_avgRowLen e data / 4000) 1
            + 0.3 * (0.5 * spec_ratio spec_is_text data + 0.5 * spec_ratio spec_is_long_text data))"

text \<open>
  The same formula with the four metrics and every operation rounded to binary64, the sum
  taken from left to right.
\<close>

definition spec_complexity_binary64 :: "js_env \<Rightarrow> jsval list \<Rightarrow> real" where
  "spec_complexity_binary64 e data =
     clamp01
       (js_add
          (js_add (js_mul (binary64 0.4) (min (js_div (binary64 (spec_avgFields data)) 40) 1))
                  (js_mul (binary64 0.3) (min (js_div (binary64 (spec_avgRowLen e data)) 4000) 1)))
          (js_mul (binary64 0.3)
             (js_add (js_mul (binary64 0.5) (binary64 (spec_ratio spec_is_text data)))
                     (js_mul (binary64 0.5) (binary64 (spec_ratio spec_is_long_text data))))))"


section \<open>String built-ins\<close>

text \<open>
  The white space of \<^verbatim>\<open>\s\<close> and of \<^verbatim>\<open>String.prototype.trim\<close>: the ECMAScript WhiteSpace
  and LineTerminator code units.
\<close>

definition is_js_space :: "nat \<Rightarrow> bool" where
  "is_js_space c =
     (c = 9 \<or> c = 10 \<or> c = 11 \<or> c = 12 \<or> c = 13 \<or> c = 32 \<or> c = 160 \<or> c = 5760 \<or>
      (8192 \<le> c \<and> c \<le> 8202) \<or> c = 8232 \<or> c = 8233 \<or> c = 8239 \<or> c = 8287 \<or>
      c = 12288 \<or> c = 65279)"

definition js_trim :: "jstring \<Rightarrow> jstring" where
  "js_trim s = rev (dropWhile is_js_space (rev (dropWhile is_js_space s)))"

definition starts_with :: "jstring \<Rightarrow> jstring \<Rightarrow> bool" where
  "starts_with s p = (take (length p) s = p)"

text \<open>\<^verbatim>\<open>s.includes(sub)\<close>.\<close>

fun js_includes :: "jstring \<Rightarrow> jstring \<Rightarrow> bool" where
  "js_includes [] sub = (sub = [])"
| "js_includes (c # cs) sub = (starts_with (c # cs) sub \<or> js_includes cs sub)"

text \<open>
  \<^verbatim>\<open>toLowerCase\<close> restricted to what \<^verbatim>\<open>content.toLowerCase().includes('call')\<close> can see: the
  only code units that lower-case to \<open>c\<close>, \<open>a\<close> or \<open>l\<close> are these letters and their ASCII
  capitals, and no code unit lower-cases to the empty string.
\<close>

definition lower_ascii :: "nat \<Rightarrow> nat" where
  "lower_ascii c = (if 65 \<le> c \<and> c \<le> 90 then c + 32 else c)"

definition is_word_char :: "nat \<Rightarrow> bool" where
  "is_word_char c = ((48 \<le> c \<and> c \<le> 57) \<or> (65 \<le> c \<and> c \<le> 90) \<or> c = 95 \<or> (97 \<le> c \<and> c \<le> 122))"

text \<open>
  A literal of a pattern with the \<^verbatim>\<open>i\<close> flag and without the \<^verbatim>\<open>u\<close> flag: canonicalisation
  never maps a code unit above 127 to an ASCII one, so an ASCII letter matches exactly its
  two cases.
\<close>

definition starts_with_ci :: "jstring \<Rightarrow> jstring \<Rightarrow> bool" where
  "starts_with_ci s p = (map lower_ascii (take (length p) s) = map lower_ascii p \<and> length p \<le> length s)"

text \<open>
  The leftmost match of a pattern: \<open>m\<close> tells whether the pattern matches at the start of
  a suffix and what it captures.
\<close>

fun regex_search :: "(jstring \<Rightarrow> 'a option) \<Rightarrow> jstring \<Rightarrow> 'a option" where
  "regex_search m [] = m []"
| "regex_search m (c # cs) = (case m (c # cs) of Some r \<Rightarrow> Some r | None \<Rightarrow> regex_search m cs)"

section \<open>Manual tool-call rescue\<close>

text \<open>
  \<^verbatim>\<open>detectManualToolCall\<close> (llmService.ts, lines 40 to 70). Both patterns have the shape
  \<^verbatim>\<open>run_sql\s*\(\s*Q(.+?)Q\s*\)\<close> with the \<^verbatim>\<open>s\<close> flag, where \<^verbatim>\<open>Q\<close> is a quote class: a double or
  single quote for the first, a backtick for the second. Every greedy \<^verbatim>\<open>\s*\<close> is followed
  by a character that is no white space, so backtracking into it never helps; the lazy
  group takes the shortest non-empty text after which a quote, optional white space and a
  closing parenthesis follow.
\<close>

record tool_call =
  tc_id :: "jstring option"
  tc_name :: jstring
  tc_arguments :: jstring

definition closes :: "(nat \<Rightarrow> bool) \<Rightarrow> jstring \<Rightarrow> bool" where
  "closes q cs =
     (case cs of
        [] \<Rightarrow> False
      | c # rest \<Rightarrow> q c \<and> (case dropWhile is_js_space rest of [] \<Rightarrow> False | d # ds \<Rightarrow> d = 41))"

fun lazy_body :: "(nat \<Rightarrow> bool) \<Rightarrow> jstring \<Rightarrow> jstring option" where
  "lazy_body q [] = None"
| "lazy_body q (c # cs) =
     (if closes q cs then Some [c] else map_option ((#) c) (lazy_body q cs))"

definition run_sql_at :: "(nat \<Rightarrow> bool) \<Rightarrow> jstring \<Rightarrow> jstring option" where
  "run_sql_at q s =
     (if \<not> starts_with s (asc ''run_sql'') then None
      else case dropWhile is_js_space (drop 7 s) of
             [] \<Rightarrow> None
           | p # r1 \<Rightarrow>
               if p \<noteq> 40 then None
               else case dropWhile is_js_space r1 of
                      [] \<Rightarrow> None
                    | d # r2 \<Rightarrow> if q d then lazy_body q r2 else None)"

definition is_quote :: "nat \<Rightarrow> bool" where
  "is_quote c = (c = 34 \<or> c = 39)"

definition is_backtick :: "nat \<Rightarrow> bool" where
  "is_backtick c = (c = 96)"

text \<open>
  \<^verbatim>\<open>JSON.stringify({ query: s })\<close> for a string \<open>s\<close>: the property name, and the string
  quoted by the ECMAScript QuoteJSONString algorithm.
\<close>

definition hex_digit :: "nat \<Rightarrow> nat" where
  "hex_digit d = (if d < 10 then 48 + d else 87 + d)"

definition unicode_escape :: "nat \<Rightarrow> jstring" where
  "unicode_escape c =
     [92, 117, hex_digit (c div 4096 mod 16), hex_digit (c div 256 mod 16),
      hex_digit (c div 16 mod 16), hex_digit (c mod 16)]"

definition is_high_surrogate :: "nat \<Rightarrow> bool" where
  "is_high_surrogate c = (55296 \<le> c \<and> c \<le> 56319)"

definition is_low_surrogate :: "nat \<Rightarrow> bool" where
  "is_low_surrogate c = (56320 \<le> c \<and> c \<le> 57343)"

fun quote_body :: "jstring \<Rightarrow> jstring" where
  "quote_body [] = []"
| "quote_body (c # cs) =
     (if c = 8 then [92, 98] @ quote_body cs
      else if c = 9 then [92, 116] @ quote_body cs
      else if c = 10 then [92, 110] @ quote_body cs
      else if c = 12 then [92, 102] @ quote_body cs
      else if c = 13 then [92, 114] @ quote_body cs
      else if c = 34 then [92, 34] @ quote_body cs
      else if c = 92 then [92, 92] @ quote_body cs
      else if c < 32 then unicode_escape c @ quote_body cs
      else if is_high_surrogate c then
        (case cs of
           [] \<Rightarrow> unicode_escape c
         | d # ds \<Rightarrow>
             if is_low_surrogate d then c # d # quote_body ds
             else unicode_escape c @ quote_body cs)
      else if is_low_surrogate c then unicode_escape c @ quote_body cs
      else c # quote_body cs)"

definition json_quote :: "jstring \<Rightarrow> jstring" where
  "json_quote s = [34] @ quote_body s @ [34]"

definition stringify_query :: "jstring \<Rightarrow> jstring" where
  "stringify_query s = asc ''{'' @ json_quote (asc ''query'') @ asc '':'' @ json_quote s @ asc ''}''"

text \<open>
  \<open>now\<close> is the value \<^verbatim>\<open>Date.now()\<close> has when an identifier is built; it is read only when
  one of the two heuristics matches.
\<close>

definition detectManualToolCall :: "nat \<Rightarrow> jstring \<Rightarrow> tool_call option" where
  "detectManualToolCall now content =
     (let sqlMatchDouble = regex_search (run_sql_at is_quote) content;
          sqlMatchBacktick = regex_search (run_sql_at is_backtick) content;
          sqlMatch = (case sqlMatchDouble of Some m \<Rightarrow> Some m | None \<Rightarrow> sqlMatchBacktick)
      in case sqlMatch of
           Some m \<Rightarrow>
             Some \<lparr>tc_id = Some (asc ''manual-sql-'' @ show_nat now),
                   tc_name = asc ''run_sql'',
                   tc_arguments = stringify_query m\<rparr>
         | None \<Rightarrow>
             if js_includes content (asc ''get_database_schema'') \<and>
                (js_includes content (asc ''()'') \<or> js_includes (map lower_ascii content) (asc ''call''))
             then Some \<lparr>tc_id = Some (asc ''manual-schema-'' @ show_nat now),
                        tc_name = asc ''get_database_schema'',
                        tc_arguments = asc ''{}''\<rparr>
             else None)"

section \<open>Parsing tool-call arguments\<close>

text \<open>
  \<^verbatim>\<open>JSON.parse\<close>: a tokenizer for the JSON lexical grammar and a recursive-descent parser
  for the JSON syntactic grammar. The lexers return, with their result, how many code units
  they consumed. A number is its exact decimal value.
\<close>

datatype token =
    TLBrace | TRBrace | TLBracket | TRBracket | TComma | TColon
  | TTrue | TFalse | TNull | TNumber rat | TString jstring

definition hex_value :: "nat \<Rightarrow> nat option" where
  "hex_value c =
     (if 48 \<le> c \<and> c \<le> 57 then Some (c - 48)
      else if 65 \<le> c \<and> c \<le> 70 then Some (c - 55)
      else if 97 \<le> c \<and> c \<le> 102 then Some (c - 87)
      else None)"

definition simple_escape :: "nat \<Rightarrow> nat option" where
  "simple_escape c =
     (if c = 34 then Some 34 else if c = 92 then Some 92 else if c = 47 then Some 47
      else if c = 98 then Some 8 else if c = 102 then Some 12 else if c = 110 then Some 10
      else if c = 114 then Some 13 else if c = 116 then Some 9 else None)"

text \<open>
  The body of a string literal, after the opening quote: the decoded string and the number
  of code units up to and including the closing quote.
\<close>

fun lex_string :: "jstring \<Rightarrow> (jstring \<times> nat) option" where
  "lex_string [] = None"
| "lex_string (c # cs) =
     (if c = 34 then Some ([], 1)
      else if c < 32 then None
      else if c = 92 then
        (case cs of
           [] \<Rightarrow> None
         | e # r \<Rightarrow>
             if e = 117 then
               (case r of
                  h1 # h2 # h3 # h4 # r' \<Rightarrow>
                    (case (hex_value h1, hex_value h2, hex_value h3, hex_value h4) of
                       (Some a, Some b, Some c', Some d) \<Rightarrow>
                         map_option (\<lambda>(s, n). ((a * 4096 + b * 256 + c' * 16 + d) # s, n + 6))
                           (lex_string r')
                     | _ \<Rightarrow> None)
                | _ \<Rightarrow> None)
             else
               (case simple_escape e of
                  None \<Rightarrow> None
                | Some x \<Rightarrow> map_option (\<lambda>(s, n). (x # s, n + 2)) (lex_string r)))
      else map_option (\<lambda>(s, n). (c # s, n + 1)) (lex_string cs))"

text \<open>
  A number literal \<^verbatim>\<open>-?(0|[1-9][0-9]*)(\.[0-9]+)?([eE][+-]?[0-9]+)?\<close> at the start of the
  input: its value and its length.
\<close>

definition lex_number :: "jstring \<Rightarrow> (rat \<times> nat) option" where
  "lex_number s =
     (let neg = (s \<noteq> [] \<and> hd s = 45);
          s1 = (if neg then tl s else s);
          ip = (if s1 \<noteq> [] \<and> hd s1 = 48 then [48] else takeWhile is_digit s1);
          s2 = drop (length ip) s1;
          has_frac = (s2 \<noteq> [] \<and> hd s2 = 46);
          fp = (if has_frac then takeWhile is_digit (tl s2) else []);
          s3 = (if has_frac then drop (length fp) (tl s2) else s2);
          has_exp = (s3 \<noteq> [] \<and> (hd s3 = 101 \<or> hd s3 = 69));
          s4 = (if has_exp then tl s3 else s3);
          esign = (if has_exp \<and> s4 \<noteq> [] \<and> (hd s4 = 43 \<or> hd s4 = 45) then [hd s4] else []);
          ep = (if has_exp then takeWhile is_digit (drop (length esign) s4) else []);
          mant = (of_nat (digits_value ip) + of_nat (digits_value fp) / 10 ^ length fp :: rat);
          scaled = (if esign = [45] then mant / 10 ^ digits_value ep else mant * 10 ^ digits_value ep);
          n = (if neg then 1 else 0) + length ip + (if has_frac then 1 + length fp else 0)
              + (if has_exp then 1 + length esign + length ep else 0)
      in if ip = [] \<or> (has_frac \<and> fp = []) \<or> (has_exp \<and> ep = []) then None
         else Some (if neg then - scaled else scaled, n))"

definition is_json_ws :: "nat \<Rightarrow> bool" where
  "is_json_ws c = (c = 9 \<or> c = 10 \<or> c = 13 \<or> c = 32)"

fun tokenize :: "jstring \<Rightarrow> token list option" where
  "tokenize [] = Some []"
| "tokenize (c # cs) =
     (if is_json_ws c then tokenize cs
      else if c = 123 then map_option ((#) TLBrace) (tokenize cs)
      else if c = 125 then map_option ((#) TRBrace) (tokenize cs)
      else if c = 91 then map_option ((#) TLBracket) (tokenize cs)
      else if c = 93 then map_option ((#) TRBracket) (tokenize cs)
      else if c = 44 then map_option ((#) TComma) (tokenize cs)
      else if c = 58 then map_option ((#) TColon) (tokenize cs)
      else if c = 34 then
        (case lex_string cs of
           None \<Rightarrow> None
         | Some (s, n) \<Rightarrow> map_option ((#) (TString s)) (tokenize (drop n cs)))
      else if c = 45 \<or> is_digit c then
        (case lex_number (c # cs) of
           None \<Rightarrow> None
         | Some (v, n) \<Rightarrow> map_option ((#) (TNumber v)) (tokenize (drop (n - 1) cs)))
      else if starts_with (c # cs) (asc ''true'') then map_option ((#) TTrue) (tokenize (drop 3 cs))
      else if starts_with (c # cs) (asc ''false'') then map_option ((#) TFalse) (tokenize (drop 4 cs))
      else if starts_with (c # cs) (asc ''null'') then map_option ((#) TNull) (tokenize (drop 3 cs))
      else None)"

text \<open>
  Property order of an ordinary object: array-index keys first, in ascending order, then
  the other keys in the order of their creation. A repeated key keeps its place and takes
  the later value.
\<close>

fun insert_index :: "nat \<Rightarrow> jstring \<Rightarrow> jsval \<Rightarrow> (jstring \<times> jsval) list \<Rightarrow> (jstring \<times> jsval) list" where
  "insert_index i k v [] = [(k, v)]"
| "insert_index i k v ((k', v') # kvs) =
     (case array_index k' of
        None \<Rightarrow> (k, v) # (k', v') # kvs
      | Some j \<Rightarrow> if i < j then (k, v) # (k', v') # kvs else (k', v') # insert_index i k v kvs)"

definition obj_put :: "(jstring \<times> jsval) list \<Rightarrow> jstring \<Rightarrow> jsval \<Rightarrow> (jstring \<times> jsval) list" where
  "obj_put kvs k v =
     (if k \<in> set (map fst kvs) then map (\<lambda>(k', v'). if k' = k then (k', v) else (k', v')) kvs
      else case array_index k of
             None \<Rightarrow> kvs @ [(k, v)]
           | Some i \<Rightarrow> insert_index i k v kvs)"

text \<open>
  The parser returns the value and the number of tokens it consumed. \<open>parse_elems\<close> reads
  the elements of an array after its opening bracket, \<open>parse_members\<close> the members of an
  object after its opening brace, adding them to the properties read so far.
\<close>

function parse_value :: "token list \<Rightarrow> (jsval \<times> nat) option"
  and parse_elems :: "token list \<Rightarrow> (jsval list \<times> nat) option"
  and parse_members :: "(jstring \<times> jsval) list \<Rightarrow> token list \<Rightarrow> ((jstring \<times> jsval) list \<times> nat) option"
where
  "parse_value [] = None"
| "parse_value (t # ts) =
     (case t of
        TTrue \<Rightarrow> Some (JBool True, 1)
      | TFalse \<Rightarrow> Some (JBool False, 1)
      | TNull \<Rightarrow> Some (JNull, 1)
      | TNumber r \<Rightarrow> Some (JNum r, 1)
      | TString s \<Rightarrow> Some (JStr s, 1)
      | TLBracket \<Rightarrow>
          (case ts of
             TRBracket # ts' \<Rightarrow> Some (JArr [], 2)
           | _ \<Rightarrow> map_option (\<lambda>(vs, n). (JArr vs, n + 1)) (parse_elems ts))
      | TLBrace \<Rightarrow>
          (case ts of
             TRBrace # ts' \<Rightarrow> Some (JObj [], 2)
           | _ \<Rightarrow> map_option (\<lambda>(kvs, n). (JObj kvs, n + 1)) (parse_members [] ts))
      | _ \<Rightarrow> None)"
| "parse_elems ts =
     (case parse_value ts of
        None \<Rightarrow> None
      | Some (v, n) \<Rightarrow>
          (case drop n ts of
             TRBracket # rest \<Rightarrow> Some ([v], n + 1)
           | TComma # rest \<Rightarrow> map_option (\<lambda>(vs, m). (v # vs, n + 1 + m)) (parse_elems rest)
           | _ \<Rightarrow> None))"
| "parse_members acc ts =
     (case ts of
        TString k # TColon # ts1 \<Rightarrow>
          (case parse_value ts1 of
             None \<Rightarrow> None
           | Some (v, n) \<Rightarrow>
               (case drop n ts1 of
                  TRBrace # rest \<Rightarrow> Some (obj_put acc k v, n + 3)
                | TComma # rest \<Rightarrow>
                    map_option (\<lambda>(kvs, m). (kvs, n + 3 + m)) (parse_members (obj_put acc k v) rest)
                | _ \<Rightarrow> None))
      | _ \<Rightarrow> None)"
  by pat_completeness auto
termination
  by (relation "measure (\<lambda>x. case x of
          Inl ts \<Rightarrow> 2 * length ts
        | Inr (Inl ts) \<Rightarrow> 2 * length ts + 1
        | Inr (Inr (acc, ts)) \<Rightarrow> 2 * length ts + 1)")
     (auto dest: arg_cong [where f = length])

definition json_parse :: "jstring \<Rightarrow> jsval option" where
  "json_parse s =
     (case tokenize s of
        None \<Rightarrow> None
      | Some ts \<Rightarrow>
          (case parse_value ts of
             None \<Rightarrow> None
           | Some (v, n) \<Rightarrow> if n = length ts then Some v else None))"


section \<open>SQL identifier sanitizer\<close>

text \<open>
  \<^verbatim>\<open>sanitizeSql\<close> (llmService.ts, lines 72 to 117). Each \<^verbatim>\<open>replace\<close> with a global pattern
  and a callback is a left-to-right scan: where the pattern matches, the callback's result
  is emitted and the scan resumes after the match; elsewhere one code unit is copied. The
  scan carries whether the previous code unit is a word character, which is what \<^verbatim>\<open>\b\<close>
  before a letter asks.
\<close>

text \<open>\<^verbatim>\<open>s.replace(/^["']|["']$/g, "")\<close> and \<^verbatim>\<open>s.replace(/^\[|\]$/g, "")\<close>.\<close>

definition strip_ends :: "(nat \<Rightarrow> bool) \<Rightarrow> (nat \<Rightarrow> bool) \<Rightarrow> jstring \<Rightarrow> jstring" where
  "strip_ends first_p last_p s =
     (if s \<noteq> [] \<and> first_p (hd s) then
        (let r = tl s in if r \<noteq> [] \<and> last_p (last r) then butlast r else r)
      else if s \<noteq> [] \<and> last_p (last s) then butlast s
      else s)"

text \<open>\<^verbatim>\<open>/^\[[^\]]+\]$/.test(s)\<close>.\<close>

definition fully_bracketed :: "jstring \<Rightarrow> bool" where
  "fully_bracketed s =
     (length s \<ge> 3 \<and> hd s = 91 \<and> last s = 93 \<and> 93 \<notin> set (butlast (tl s)))"

text \<open>\<^verbatim>\<open>/^[A-Za-z_][A-Za-z0-9_]*$/.test(s)\<close>.\<close>

definition is_ascii_ident :: "jstring \<Rightarrow> bool" where
  "is_ascii_ident s = (s \<noteq> [] \<and> \<not> is_digit (hd s) \<and> list_all is_word_char s)"

definition is_cjk :: "nat \<Rightarrow> bool" where
  "is_cjk c = (19968 \<le> c \<and> c \<le> 40869)"

text \<open>\<^verbatim>\<open>/[\u4e00-\u9fa5]/.test(s)\<close>.\<close>

definition has_cjk :: "jstring \<Rightarrow> bool" where
  "has_cjk s = list_ex is_cjk s"

text \<open>
  \<^verbatim>\<open>str.replace(pattern, replacement)\<close> with two strings: the first occurrence of the
  pattern is replaced, and in the replacement \<^verbatim>\<open>$$\<close>, \<^verbatim>\<open>$&\<close>, \<^verbatim>\<open>$`\<close> and \<^verbatim>\<open>$'\<close> stand for a
  dollar sign, the matched text, the text before it and the text after it.
\<close>

fun find_sub :: "jstring \<Rightarrow> jstring \<Rightarrow> nat option" where
  "find_sub [] p = (if p = [] then Some 0 else None)"
| "find_sub (c # cs) p =
     (if starts_with (c # cs) p then Some 0 else map_option Suc (find_sub cs p))"

fun expand_replacement :: "jstring \<Rightarrow> jstring \<Rightarrow> jstring \<Rightarrow> jstring \<Rightarrow> jstring" where
  "expand_replacement m b a [] = []"
| "expand_replacement m b a [c] = [c]"
| "expand_replacement m b a (c # d # r) =
     (if c = 36 \<and> d = 36 then 36 # expand_replacement m b a r
      else if c = 36 \<and> d = 38 then m @ expand_replacement m b a r
      else if c = 36 \<and> d = 96 then b @ expand_replacement m b a r
      else if c = 36 \<and> d = 39 then a @ expand_replacement m b a r
      else c # expand_replacement m b a (d # r))"

definition replace_first :: "jstring \<Rightarrow> jstring \<Rightarrow> jstring \<Rightarrow> jstring" where
  "replace_first s p r =
     (case find_sub s p of
        None \<Rightarrow> s
      | Some i \<Rightarrow>
          (let b = take i s; a = drop (i + length p) s
           in b @ expand_replacement p b a r @ a))"

text \<open>
  The alias pattern \<^verbatim>\<open>/\bAS\s+(\[[^\]]+\]|[^\s,\)\]]+)/gi\<close> at the start of a suffix (the
  word boundary is checked by the scan): the matched text and the captured alias. The
  group cannot start with white space, so \<^verbatim>\<open>\s+\<close> takes all the white space there is.
\<close>

definition alias_stop :: "nat \<Rightarrow> bool" where
  "alias_stop c = (is_js_space c \<or> c = 44 \<or> c = 41 \<or> c = 93)"

definition alias_group :: "jstring \<Rightarrow> jstring option" where
  "alias_group s =
     (let bracket =
            (case s of
               [] \<Rightarrow> None
             | c # r \<Rightarrow>
                 (let body = takeWhile (\<lambda>x. x \<noteq> 93) r
                  in if c = 91 \<and> body \<noteq> [] \<and> drop (length body) r \<noteq> [] then Some (91 # body @ [93])
                     else None));
          bare = takeWhile (\<lambda>x. \<not> alias_stop x) s
      in case bracket of
           Some a \<Rightarrow> Some a
         | None \<Rightarrow> if bare \<noteq> [] then Some bare else None)"

definition alias_match :: "jstring \<Rightarrow> (jstring \<times> jstring) option" where
  "alias_match s =
     (if \<not> starts_with_ci s (asc ''AS'') then None
      else
        let ws = takeWhile is_js_space (drop 2 s)
        in if ws = [] then None
           else case alias_group (drop (2 + length ws) s) of
                  None \<Rightarrow> None
                | Some alias \<Rightarrow> Some (take (2 + length ws + length alias) s, alias))"

text \<open>The callback of the alias pass, with the counter \<^verbatim>\<open>aliasIndex\<close> it increments.\<close>

definition alias_callback :: "nat \<Rightarrow> jstring \<Rightarrow> jstring \<Rightarrow> jstring \<times> nat" where
  "alias_callback aliasIndex matched alias =
     (let trimmed = strip_ends is_quote is_quote (js_trim alias)
      in if trimmed = [] then (matched, aliasIndex)
         else if fully_bracketed trimmed then (matched, aliasIndex)
         else
           let inner = strip_ends (\<lambda>c. c = 91) (\<lambda>c. c = 93) trimmed
           in if is_ascii_ident inner then (replace_first matched alias inner, aliasIndex)
              else if has_cjk inner then (replace_first matched alias ([91] @ inner @ [93]), aliasIndex)
              else (replace_first matched alias (asc ''col_'' @ show_nat aliasIndex), aliasIndex + 1))"

fun alias_scan :: "bool \<Rightarrow> nat \<Rightarrow> jstring \<Rightarrow> jstring" where
  "alias_scan prev_word aliasIndex [] = []"
| "alias_scan prev_word aliasIndex (c # cs) =
     (case (if prev_word then None else alias_match (c # cs)) of
        Some (matched, alias) \<Rightarrow>
          (let (out, aliasIndex') = alias_callback aliasIndex matched alias
           in out @ alias_scan (is_word_char (last matched)) aliasIndex' (drop (length matched - 1) cs))
      | None \<Rightarrow> c # alias_scan (is_word_char c) aliasIndex cs)"

definition alias_pass :: "jstring \<Rightarrow> jstring" where
  "alias_pass sql = alias_scan False 1 sql"

text \<open>
  The pattern \<^verbatim>\<open>/([^\s,]+)(\s+(ASC|DESC))?/gi\<close> applied to the body of a clause: the
  identifier, and the optional direction part with its leading white space.
\<close>

definition ident_stop :: "nat \<Rightarrow> bool" where
  "ident_stop c = (is_js_space c \<or> c = 44)"

definition direction_part :: "jstring \<Rightarrow> jstring option" where
  "direction_part s =
     (let ws = takeWhile is_js_space s; r = drop (length ws) s
      in if ws = [] then None
         else if starts_with_ci r (asc ''ASC'') then Some (take (length ws + 3) s)
         else if starts_with_ci r (asc ''DESC'') then Some (take (length ws + 4) s)
         else None)"

text \<open>\<^verbatim>\<open>/^[\u4e00-\u9fa5A-Za-z0-9_]+$/.test(s)\<close>.\<close>

definition cjk_word :: "jstring \<Rightarrow> bool" where
  "cjk_word s = (s \<noteq> [] \<and> list_all (\<lambda>c. is_cjk c \<or> is_word_char c) s)"

definition segment_callback :: "jstring \<Rightarrow> jstring \<Rightarrow> jstring option \<Rightarrow> jstring" where
  "segment_callback segment ident orderPart =
     (let idTrim = js_trim ident
      in if idTrim = [] then segment
         else if fully_bracketed idTrim then segment
         else if has_cjk idTrim \<and> cjk_word idTrim then
           [91] @ idTrim @ [93] @ (case orderPart of Some p \<Rightarrow> p | None \<Rightarrow> [])
         else segment)"

fun segment_scan :: "jstring \<Rightarrow> jstring" where
  "segment_scan [] = []"
| "segment_scan (c # cs) =
     (if ident_stop c then c # segment_scan cs
      else
        let ident = takeWhile (\<lambda>x. \<not> ident_stop x) (c # cs);
            orderPart = direction_part (drop (length ident) (c # cs));
            segment = ident @ (case orderPart of Some p \<Rightarrow> p | None \<Rightarrow> [])
        in segment_callback segment ident orderPart @ segment_scan (drop (length segment - 1) cs))"

text \<open>
  The clause pattern \<^verbatim>\<open>/\bORDER\s+BY\s+([^;]+)/gi\<close> (or \<^verbatim>\<open>GROUP\<close>) at the start of a
  suffix: the length of the match and the captured body. The body is everything up to the
  next semicolon. When nothing but a semicolon or the end follows the white space after
  \<^verbatim>\<open>BY\<close>, the pattern still matches if that white space has two code units or more: \<^verbatim>\<open>\s+\<close>
  gives the last one back to the body.
\<close>

definition clause_match :: "jstring \<Rightarrow> jstring \<Rightarrow> (nat \<times> jstring) option" where
  "clause_match kw s =
     (if \<not> starts_with_ci s kw then None
      else
        let r1 = drop (length kw) s; ws1 = takeWhile is_js_space r1; r2 = drop (length ws1) r1
        in if ws1 = [] \<or> \<not> starts_with_ci r2 (asc ''BY'') then None
           else
             let r3 = drop 2 r2; ws2 = takeWhile is_js_space r3; r4 = drop (length ws2) r3;
                 body = takeWhile (\<lambda>x. x \<noteq> 59) r4;
                 head_len = length kw + length ws1 + 2 + length ws2
             in if ws2 = [] then None
                else if body \<noteq> [] then Some (head_len + length body, body)
                else if length ws2 \<ge> 2 then Some (head_len, [last ws2])
                else None)"

fun clause_scan :: "jstring \<Rightarrow> jstring \<Rightarrow> bool \<Rightarrow> jstring \<Rightarrow> jstring" where
  "clause_scan kw clause_text prev_word [] = []"
| "clause_scan kw clause_text prev_word (c # cs) =
     (case (if prev_word then None else clause_match kw (c # cs)) of
        Some (n, body) \<Rightarrow>
          clause_text @ asc '' '' @ segment_scan body
            @ clause_scan kw clause_text (is_word_char (last (take n (c # cs)))) (drop (n - 1) cs)
      | None \<Rightarrow> c # clause_scan kw clause_text (is_word_char c) cs)"

datatype clause = ORDER_BY | GROUP_BY

definition wrapChineseIdentifierInOrderGroup :: "jstring \<Rightarrow> clause \<Rightarrow> jstring" where
  "wrapChineseIdentifierInOrderGroup input clause =
     (case clause of
        ORDER_BY \<Rightarrow> clause_scan (asc ''ORDER'') (asc ''ORDER BY'') False input
      | GROUP_BY \<Rightarrow> clause_scan (asc ''GROUP'') (asc ''GROUP BY'') False input)"

definition sanitizeSql :: "jstring \<Rightarrow> jstring" where
  "sanitizeSql sql =
     (if sql = [] then sql
      else
        let sanitized = alias_pass sql;
            sanitized = wrapChineseIdentifierInOrderGroup sanitized ORDER_BY;
            sanitized = wrapChineseIdentifierInOrderGroup sanitized GROUP_BY
        in sanitized)"


section \<open>Query engine\<close>

text \<open>
  \<^verbatim>\<open>executeSql\<close> (dataService.ts). The call \<^verbatim>\<open>alasql(sql)\<close> is a parameter: it throws an
  error, of which only the \<^verbatim>\<open>message\<close> is read (empty when there is none), or returns a
  value. The columns are the own keys of the first row; in another row such a name can
  be missing and found on a prototype.
\<close>

record QueryResult =
  qr_columns :: "jstring list"
  qr_data :: "jsval list"
  qr_error :: "jstring option"

datatype alasql_outcome = Threw jstring | Returned jsval

definition caught :: "jstring \<Rightarrow> QueryResult" where
  "caught m =
     \<lparr>qr_columns = [], qr_data = [],
      qr_error = Some (if m = [] then asc ''Unknown SQL Error'' else m)\<rparr>"

definition clean_row :: "js_env \<Rightarrow> jstring list \<Rightarrow> jsval \<Rightarrow> jsval" where
  "clean_row js cols row =
     JObj (foldl (\<lambda>newRow col. obj_put newRow col (read_prop js row col)) [] cols)"

definition executeSql :: "js_env \<Rightarrow> (jsval \<Rightarrow> alasql_outcome) \<Rightarrow> jsval \<Rightarrow> QueryResult" where
  "executeSql js engine sql =
     (case engine sql of
        Threw m \<Rightarrow> caught m
      | Returned res \<Rightarrow>
          if nullish res then
            \<lparr>qr_columns = [], qr_data = [],
             qr_error = Some (asc ''SQL query returned no result (undefined). The table might not exist or the query format is invalid.'')\<rparr>
          else
            (case res of
               JArr rows \<Rightarrow>
                 if rows = [] then \<lparr>qr_columns = [], qr_data = [], qr_error = None\<rparr>
                 else if is_row_object (hd rows) then
                   (let rawCols = object_keys (hd rows);
                        cols = filter (\<lambda>k. k \<noteq> asc ''undefined'' \<and> k \<noteq> [] \<and> \<not> starts_with k (asc ''_'')) rawCols
                    in case (if cols = [] then None else find nullish rows) of
                         Some bad \<Rightarrow> caught (error_text js (ReadOf bad (hd cols)))
                       | None \<Rightarrow>
                           \<lparr>qr_columns = cols, qr_data = map (clean_row js cols) rows, qr_error = None\<rparr>)
                 else
                   \<lparr>qr_columns = [asc ''Value''],
                    qr_data = map (\<lambda>v. JObj [(asc ''Value'', v)]) rows, qr_error = None\<rparr>
             | JObj kvs \<Rightarrow>
                 (let keys = filter (\<lambda>k. \<not> starts_with k (asc ''_'')) (object_keys res)
                  in if keys \<noteq> [] then \<lparr>qr_columns = keys, qr_data = [res], qr_error = None\<rparr>
                     else \<lparr>qr_columns = [asc ''Result''],
                           qr_data = [JObj [(asc ''Result'', res)]], qr_error = None\<rparr>)
             | _ \<Rightarrow>
                 \<lparr>qr_columns = [asc ''Result''],
                  qr_data = [JObj [(asc ''Result'', res)]], qr_error = None\<rparr>))"

section \<open>Compression accumulator\<close>

text \<open>
  \<^verbatim>\<open>smartCompressData\<close> (llmService.ts, lines 205 to 296). The prompt is a fixed template
  with four holes; a request is the record of what fills them. The completion service is a
  parameter \<open>ask\<close>, given the index of the batch and the request: it fails (the call throws,
  or the response has no first choice), or it returns a content that may be \<^verbatim>\<open>null\<close>. The
  outcome lists the progress messages handed to \<^verbatim>\<open>onProgress\<close> and the returned text, or
  \<open>None\<close> when \<^verbatim>\<open>JSON.stringify(batch)\<close> threw outside the \<^verbatim>\<open>try\<close>.
\<close>

record compress_request =
  req_question :: jstring
  req_sql :: jstring
  req_previous :: jstring
  req_batch :: jstring

datatype completion = Failed | Content "jstring option"

record compress_outcome =
  co_progress :: "jstring list"
  co_result :: "jstring option"

text \<open>
  The loop of lines 221 to 223. With a batch size of zero the loop would never end: that
  is \<open>None\<close>.
\<close>

function batches_of :: "nat \<Rightarrow> jsval list \<Rightarrow> jsval list list option" where
  "batches_of n xs =
     (if xs = [] then Some []
      else if n = 0 then None
      else map_option ((#) (take n xs)) (batches_of n (drop n xs)))"
  by pat_completeness auto
termination
  by (relation "measure (\<lambda>(n, xs). length xs)") auto

declare batches_of.simps [simp del]

definition first_batch_marker :: jstring where
  "first_batch_marker =
     asc ''('' @ [26242, 26080, 65292, 36825, 26159, 31532, 19968, 25209, 25968, 25454] @ asc '')''"

definition progress_message :: "nat \<Rightarrow> nat \<Rightarrow> int \<Rightarrow> jstring" where
  "progress_message i n_batches batch_size =
     [27491, 22312, 36827, 34892, 26234, 33021, 36845, 20195, 21387, 32553] @ asc ''... ('' @ [31532]
     @ asc '' '' @ show_nat (i + 1) @ asc ''/'' @ show_nat n_batches
     @ asc '' '' @ [36718] @ asc '', '' @ [27599, 36718] @ asc '' '' @ show_nat (nat batch_size)
     @ asc '' '' @ [34892] @ asc '') '' @ [10, 22788, 29702, 27169, 24335] @ asc '': '' @ [25552, 21462]
     @ asc ''/'' @ [35745, 31639, 24182, 21512, 24182] @ asc ''...''"

definition raw_marker :: "nat \<Rightarrow> jstring \<Rightarrow> jstring" where
  "raw_marker i batchJson = [10] @ asc ''[Batch '' @ show_nat i @ asc '' Raw]: '' @ batchJson"

fun compress_loop ::
  "js_env \<Rightarrow> (nat \<Rightarrow> compress_request \<Rightarrow> completion) \<Rightarrow> jstring \<Rightarrow> jstring \<Rightarrow> nat \<Rightarrow> int \<Rightarrow>
   nat \<Rightarrow> jsval list list \<Rightarrow> jstring \<Rightarrow> jstring list \<Rightarrow> compress_outcome" where
  "compress_loop js ask question sql n_batches batch_size i [] accumulatedResult prog =
     \<lparr>co_progress = prog, co_result = Some accumulatedResult\<rparr>"
| "compress_loop js ask question sql n_batches batch_size i (batch # rest) accumulatedResult prog =
     (let prog' = prog @ [progress_message i n_batches batch_size]
      in case stringify js (JArr batch) of
           None \<Rightarrow> \<lparr>co_progress = prog', co_result = None\<rparr>
         | Some batchJson \<Rightarrow>
             (let request =
                    \<lparr>req_question = question, req_sql = sql,
                     req_previous =
                       (if accumulatedResult = [] then first_batch_marker else accumulatedResult),
                     req_batch = batchJson\<rparr>
              in case ask i request of
                   Content c \<Rightarrow>
                     compress_loop js ask question sql n_batches batch_size (i + 1) rest
                       (case c of Some newContent \<Rightarrow> js_trim newContent | None \<Rightarrow> []) prog'
                 | Failed \<Rightarrow>
                     compress_loop js ask question sql n_batches batch_size (i + 1) rest
                       (accumulatedResult @ raw_marker i batchJson) prog'))"

definition smartCompressData ::
  "js_env \<Rightarrow> (nat \<Rightarrow> compress_request \<Rightarrow> completion) \<Rightarrow> jsval list \<Rightarrow> jstring \<Rightarrow> jstring \<Rightarrow>
   compress_outcome option" where
  "smartCompressData js ask data question sql =
     (if data = [] then Some \<lparr>co_progress = [], co_result = Some (asc ''[]'')\<rparr>
      else
        let BATCH_SIZE = calculateAdaptiveBatchSize js data
        in case batches_of (nat BATCH_SIZE) data of
             None \<Rightarrow> None
           | Some batches \<Rightarrow>
               Some (compress_loop js ask question sql (length batches) BATCH_SIZE 0 batches [] []))"


section \<open>Agent loop\<close>

text \<open>
  \<^verbatim>\<open>runAgent\<close> (llmService.ts, lines 301 to 622). The step log, the conversation and what
  the two callbacks received are the state, passed through every function and returned
  updated. An error thrown inside the \<^verbatim>\<open>try\<close> block of an iteration is the left summand of
  a result, with its message and the state at the moment of the throw: the mutations made
  before the throw stay.
\<close>

datatype step_type = Thought | Action | Observation | Final

datatype step_status = Streaming | Complete | Error

record TableSchema =
  tableName :: jstring
  originalName :: "jstring option"
  columns :: "jstring list"
  rowCount :: nat
  samples :: "jsval list"

datatype step_result = ResultNull | ResultSchema "TableSchema list" | ResultQuery QueryResult

record AgentStep =
  step_id :: jstring
  step_type :: step_type
  step_content :: jstring
  step_status :: step_status
  step_toolName :: "jstring option"
  step_result :: "step_result option"

datatype message =
    SystemMessage jstring
  | UserMessage jstring
  | AssistantToolCalls "tool_call option list"
  | AssistantMessage jstring
  | ToolMessage "jstring option" jstring jstring

text \<open>
  One streamed chunk is its \<^verbatim>\<open>choices[0].delta\<close>: an optional content fragment and the
  tool-call fragments (none when the field is absent). A streamed completion is the list of
  chunks that arrive and, when the request or the stream fails, the message of the error
  thrown after them.
\<close>

record tool_call_delta =
  tcd_index :: nat
  tcd_id :: "jstring option"
  tcd_name :: "jstring option"
  tcd_arguments :: "jstring option"

record delta =
  d_content :: "jstring option"
  d_tool_calls :: "tool_call_delta list"

record stream_result =
  chunks :: "delta list"
  failure :: "jstring option"

text \<open>
  The world outside: the model is asked with the whole conversation, which grows with every
  request; a compression request is told apart by the conversation at its time and the
  batch index; the query engine answers from the statements executed before and the
  current one; \<open>clock n\<close> is what the \<open>n\<close>-th reading of \<^verbatim>\<open>Date.now()\<close> returns. The system
  prompt is a fixed text that ends with the current date.
\<close>

record agent_env =
  js :: js_env
  system_prompt :: jstring
  llm :: "message list \<Rightarrow> stream_result"
  summarize :: "message list \<Rightarrow> nat \<Rightarrow> compress_request \<Rightarrow> completion"
  alasql :: "jsval list \<Rightarrow> jsval \<Rightarrow> alasql_outcome"
  clock :: "nat \<Rightarrow> nat"

text \<open>
  \<open>updates\<close> are the step lists \<^verbatim>\<open>onStepUpdate\<close> received, \<open>answers\<close> the texts
  \<^verbatim>\<open>onFinalAnswer\<close> received, \<open>ticks\<close> the number of clock readings so far, and \<open>executed\<close>
  the arguments \<^verbatim>\<open>executeSql\<close> was called with.
\<close>

record agent_state =
  steps :: "AgentStep list"
  messages :: "message list"
  updates :: "AgentStep list list"
  answers :: "jstring list"
  ticks :: nat
  executed :: "jsval list"

definition MAX_ITERATIONS :: nat where
  "MAX_ITERATIONS = 50"

definition notify :: "agent_state \<Rightarrow> agent_state" where
  "notify st = st\<lparr>updates := updates st @ [steps st]\<rparr>"

definition pushStep :: "AgentStep \<Rightarrow> agent_state \<Rightarrow> agent_state" where
  "pushStep step st = notify (st\<lparr>steps := steps st @ [step]\<rparr>)"

text \<open>An assignment to fields of \<^verbatim>\<open>steps[steps.length - 1]\<close>, made when the log is not empty.\<close>

definition set_last :: "(AgentStep \<Rightarrow> AgentStep) \<Rightarrow> agent_state \<Rightarrow> agent_state" where
  "set_last f st =
     (if steps st = [] then st else st\<lparr>steps := butlast (steps st) @ [f (last (steps st))]\<rparr>)"

definition updateLastStep :: "jstring \<Rightarrow> step_status \<Rightarrow> agent_state \<Rightarrow> agent_state" where
  "updateLastStep content status st =
     (if steps st = [] then st
      else notify (set_last (\<lambda>l. l\<lparr>step_content := content, step_status := status\<rparr>) st))"

text \<open>An identifier \<^verbatim>\<open>`prefix${Date.now()}`\<close>.\<close>

definition fresh_id :: "agent_env \<Rightarrow> jstring \<Rightarrow> agent_state \<Rightarrow> jstring \<times> agent_state" where
  "fresh_id e prefix st = (prefix @ show_nat (clock e (ticks st)), st\<lparr>ticks := ticks st + 1\<rparr>)"

text \<open>\<^verbatim>\<open>delta.content.replace(/<\/tool_call>/g, '')\<close>.\<close>

fun strip_close_tag :: "jstring \<Rightarrow> jstring" where
  "strip_close_tag [] = []"
| "strip_close_tag (c # cs) =
     (if starts_with (c # cs) (asc ''</tool_call>'') then strip_close_tag (drop 11 cs)
      else c # strip_close_tag cs)"

text \<open>
  \<^verbatim>\<open>toolCallsBuffer[index] = x\<close>: an index beyond the end leaves holes, which are \<open>None\<close>.
\<close>

definition buf_set :: "tool_call option list \<Rightarrow> nat \<Rightarrow> tool_call \<Rightarrow> tool_call option list" where
  "buf_set buf i x =
     (if i < length buf then buf[i := Some x] else buf @ replicate (i - length buf) None @ [Some x])"

definition merge_fragment :: "tool_call option list \<Rightarrow> tool_call_delta \<Rightarrow> tool_call option list" where
  "merge_fragment buf tc =
     (let index = tcd_index tc;
          cur = (if index < length buf then buf ! index else None);
          c0 = (case cur of
                  Some c \<Rightarrow> c
                | None \<Rightarrow> \<lparr>tc_id = tcd_id tc, tc_name = [], tc_arguments = []\<rparr>);
          c1 = (case tcd_id tc of
                  Some i \<Rightarrow> if i \<noteq> [] then c0\<lparr>tc_id := Some i\<rparr> else c0
                | None \<Rightarrow> c0);
          c2 = (case tcd_name tc of
                  Some n \<Rightarrow> if n \<noteq> [] then c1\<lparr>tc_name := tc_name c1 @ n\<rparr> else c1
                | None \<Rightarrow> c1);
          c3 = (case tcd_arguments tc of
                  Some a \<Rightarrow> if a \<noteq> [] then c2\<lparr>tc_arguments := tc_arguments c2 @ a\<rparr> else c2
                | None \<Rightarrow> c2)
      in buf_set buf index c3)"

text \<open>The body of the \<^verbatim>\<open>for await\<close> loop, for the chunks that arrive.\<close>

fun consume_stream ::
  "delta list \<Rightarrow> jstring \<Rightarrow> tool_call option list \<Rightarrow> agent_state \<Rightarrow>
   jstring \<times> tool_call option list \<times> agent_state" where
  "consume_stream [] currentThought toolCallsBuffer st = (currentThought, toolCallsBuffer, st)"
| "consume_stream (d # ds) currentThought toolCallsBuffer st =
     (let (thought', st') =
            (case d_content d of
               None \<Rightarrow> (currentThought, st)
             | Some c \<Rightarrow>
                 if c = [] then (currentThought, st)
                 else (currentThought @ strip_close_tag c,
                       updateLastStep (currentThought @ strip_close_tag c) Streaming st))
      in consume_stream ds thought' (foldl merge_fragment toolCallsBuffer (d_tool_calls d)) st')"

text \<open>JavaScript truthiness. A parsed number is zero when its decimal value rounds to zero.\<close>

fun truthy :: "jsval \<Rightarrow> bool" where
  "truthy JUndefined = False"
| "truthy JNull = False"
| "truthy (JBool b) = b"
| "truthy (JNum r) = (\<bar>r\<bar> > 1 / 2 ^ 1075)"
| "truthy (JStr s) = (s \<noteq> [])"
| "truthy (JArr xs) = True"
| "truthy (JObj kvs) = True"
| "truthy (JFunction src) = True"

text \<open>
  \<^verbatim>\<open>sanitizeSql(fnArgs.query)\<close> on whatever the arguments hold: a falsy value is returned as
  it is, a string is sanitized, and anything else has no \<^verbatim>\<open>replace\<close> method (\<open>None\<close>).
\<close>

definition sanitize_value :: "jsval \<Rightarrow> jsval option" where
  "sanitize_value v =
     (if \<not> truthy v then Some v
      else case v of JStr s \<Rightarrow> Some (JStr (sanitizeSql s)) | _ \<Rightarrow> None)"

definition sql_error_text :: "jstring \<Rightarrow> jstring" where
  "sql_error_text err = asc ''SQL '' @ [25191, 34892, 38169, 35823] @ asc '': '' @ err"

definition empty_result_text :: jstring where
  "empty_result_text =
     [26597, 35810, 32467, 26524] @ asc '': [] (0 '' @ [34892] @ asc '')'' @ [12290, 10, 9888, 65039]
     @ asc '' **'' @ [32467, 26524, 20026, 31354, 65281] @ asc ''**'' @ [10] @ asc ''1. ''
     @ [35831, 26816, 26597, 20320, 30340] @ asc '' WHERE ''
     @ [26465, 20214, 26159, 21542, 22826, 20005, 26684, 12290, 23581, 35797, 25226] @ asc '' AND ''
     @ [25442, 25104] @ asc '' OR'' @ [12290, 10] @ asc ''2. ''
     @ [35831, 30830, 35748, 20320, 20351, 29992, 20102] @ asc '' LIKE '' @ [39] @ asc ''%...%'' @ [39]
     @ asc '' '' @ [32780, 19981, 26159] @ asc '' ='' @ [12290, 10] @ asc ''3. ''
     @ [35831, 23581, 35797, 25191, 34892, 23616, 37096, 39564, 35777, 26597, 35810]
     @ asc '' (Partial Verification) ''
     @ [26469, 26816, 26597, 25968, 25454, 26159, 21542, 23384, 22312, 12290]"

definition compress_step_text :: "nat \<Rightarrow> int \<Rightarrow> jstring" where
  "compress_step_text row_count estimatedBatchSize =
     [27491, 22312, 23545] @ asc '' '' @ show_nat row_count @ asc '' ''
     @ [34892, 25968, 25454, 36827, 34892, 26234, 33021, 36845, 20195, 21387, 32553, 19982, 20998, 26512]
     @ asc ''...'' @ [10, 30446, 26631] @ asc '': ''
     @ [25552, 21462, 26680, 24515, 25968, 25454, 24182, 29983, 25104, 19994, 21153, 27934, 23519,
        12290, 10, 39044, 35745, 27599, 36718, 22788, 29702]
     @ asc '' '' @ show_nat (nat estimatedBatchSize) @ asc '' '' @ [34892, 12290]"

definition compressed_text :: "jstring \<Rightarrow> jstring" where
  "compressed_text t =
     [26597, 35810, 32467, 26524] @ asc '' ('' @ [24050, 20998, 26512, 19982, 21387, 32553] @ asc ''):''
     @ [10] @ t"

definition fallback_text :: "jstring \<Rightarrow> jstring" where
  "fallback_text t =
     [26597, 35810, 32467, 26524] @ asc '' ('' @ [21387, 32553, 22833, 36133, 65292, 23637, 31034, 21069]
     @ asc ''50'' @ [34892] @ asc ''):'' @ [10] @ t"

definition empty_database_text :: jstring where
  "empty_database_text =
     [25968, 25454, 24211, 20026, 31354, 12290, 35831, 25552, 31034, 29992, 25143, 20808, 19978, 20256]
     @ asc '' Excel '' @ [25991, 20214, 12290]"

definition unknown_tool_text :: jstring where
  "unknown_tool_text = [38169, 35823] @ asc '': '' @ [26410, 30693, 24037, 20855, 35843, 29992]"

definition invalid_json_text :: jstring where
  "invalid_json_text = asc ''Error: Invalid JSON arguments provided for tool call.''"

text \<open>The callback handed to \<^verbatim>\<open>smartCompressData\<close> (lines 556 to 562).\<close>

definition on_progress :: "agent_state \<Rightarrow> jstring \<Rightarrow> agent_state" where
  "on_progress st progressMsg =
     (if steps st \<noteq> [] \<and> step_type (last (steps st)) = Thought
         \<and> starts_with (step_id (last (steps st))) (asc ''compress'')
      then notify (set_last (\<lambda>l. l\<lparr>step_content := progressMsg\<rparr>) st)
      else st)"

text \<open>
  Lines 539 to 576, for a result with rows: the compression and its fallback. The result
  is the observation text and the state, or the error that leaves the \<^verbatim>\<open>try\<close> block of the
  iteration when the fallback cannot render the rows either. \<open>None\<close> is a run that does not
  return.
\<close>

definition compress_rows ::
  "agent_env \<Rightarrow> jstring \<Rightarrow> jsval \<Rightarrow> jsval list \<Rightarrow> agent_state \<Rightarrow>
   ((jstring \<times> agent_state) + (jstring \<times> agent_state)) option" where
  "compress_rows e question sql data st =
     (let estimatedBatchSize = calculateAdaptiveBatchSize (js e) data;
          (cid, st2) = fresh_id e (asc ''compress-'') st;
          st3 = pushStep
                  \<lparr>step_id = cid, step_type = Thought,
                   step_content = compress_step_text (length data) estimatedBatchSize,
                   step_status = Streaming, step_toolName = None, step_result = None\<rparr> st2
      in case smartCompressData (js e) (summarize e (messages st3)) data question
                (js_String (number_to_string (js e)) sql) of
           None \<Rightarrow> None
         | Some out \<Rightarrow>
             (let st4 = foldl on_progress st3 (co_progress out)
              in case co_result out of
                   Some compressedText \<Rightarrow>
                     Some (Inr (compressed_text compressedText,
                                notify (set_last (\<lambda>l. l\<lparr>step_status := Complete\<rparr>) st4)))
                 | None \<Rightarrow>
                     (case stringify (js e) (JArr (take 50 data)) of
                        Some limited \<Rightarrow> Some (Inr (fallback_text limited, st4))
                      | None \<Rightarrow>
                          Some (Inl (error_text (js e) (NotSerializable (JArr (take 50 data))), st4)))))"

text \<open>\<^verbatim>\<open>if (queryResult.error)\<close>: the error message when there is one and it is not empty.\<close>

definition reported_error :: "QueryResult \<Rightarrow> jstring option" where
  "reported_error queryResult =
     (case qr_error queryResult of Some m \<Rightarrow> if m = [] then None else Some m | None \<Rightarrow> None)"

text \<open>
  The \<^verbatim>\<open>run_sql\<close> branch (lines 521 to 579): the observation text, the query result and the
  state, or the error that leaves the \<^verbatim>\<open>try\<close> block of the iteration.
\<close>

definition run_sql_tool ::
  "agent_env \<Rightarrow> jstring \<Rightarrow> jsval \<Rightarrow> agent_state \<Rightarrow>
   ((jstring \<times> agent_state) + (jstring \<times> QueryResult \<times> agent_state)) option" where
  "run_sql_tool e question fnArgs st =
     (if fnArgs = JNull then Some (Inl (error_text (js e) (ReadOf JNull (asc ''query'')), st))
      else case sanitize_value (get_prop fnArgs (asc ''query'')) of
        None \<Rightarrow> Some (Inl (error_text (js e) (NotAFunction (asc ''sql.replace'')), st))
      | Some sql \<Rightarrow>
          (let queryResult = executeSql (js e) (alasql e (executed st)) sql;
               st1 = st\<lparr>executed := executed st @ [sql]\<rparr>
           in case reported_error queryResult of
                Some err \<Rightarrow> Some (Inr (sql_error_text err, queryResult, st1))
              | None \<Rightarrow>
                  if length (qr_data queryResult) = 0 then Some (Inr (empty_result_text, queryResult, st1))
                  else
                    (case compress_rows e question sql (qr_data queryResult) st1 of
                       None \<Rightarrow> None
                     | Some (Inl thrown) \<Rightarrow> Some (Inl thrown)
                     | Some (Inr (resultString, st2)) \<Rightarrow> Some (Inr (resultString, queryResult, st2)))))"

definition schema_line :: "TableSchema \<Rightarrow> jstring" where
  "schema_line t =
     (let sourceInfo =
            (case originalName t of
               Some n \<Rightarrow> if n = [] then [] else asc ''(Source_File: '' @ n @ asc '')''
             | None \<Rightarrow> [])
      in asc ''[Table_SQL_ID: '' @ tableName t @ asc '' '' @ sourceInfo @ asc '', Rows: ''
         @ show_nat (rowCount t) @ asc ''] Columns: '' @ join_with (asc '', '') (columns t))"

definition schema_text :: "TableSchema list \<Rightarrow> jstring" where
  "schema_text schema =
     (let schemaStr = join_with [10] (map schema_line schema)
      in if schemaStr = [] then empty_database_text else schemaStr)"

text \<open>Lines 586 to 599: the observation step and the tool message that end a dispatch.\<close>

definition observe ::
  "agent_env \<Rightarrow> tool_call \<Rightarrow> jstring \<Rightarrow> step_result \<Rightarrow> agent_state \<Rightarrow> agent_state" where
  "observe e toolCall resultString resultData st =
     (let (oid, st1) = fresh_id e (asc ''obs-'') st;
          st2 = pushStep
                  \<lparr>step_id = oid, step_type = Observation, step_content = resultString,
                   step_status = Complete, step_toolName = None, step_result = Some resultData\<rparr> st1
      in st2\<lparr>messages := messages st2 @ [ToolMessage (tc_id toolCall) (tc_name toolCall) resultString]\<rparr>)"

text \<open>
  The inner \<^verbatim>\<open>try\<close> (lines 496 to 509): the argument text is parsed and the parsed value
  rendered for the action step; if either throws, the \<^verbatim>\<open>catch\<close> takes over (\<open>None\<close>).
\<close>

definition parse_arguments :: "agent_env \<Rightarrow> jstring \<Rightarrow> (jsval \<times> jstring) option" where
  "parse_arguments e raw =
     (case json_parse (if raw = [] then asc ''{}'' else raw) of
        None \<Rightarrow> None
      | Some fnArgs \<Rightarrow>
          (case stringify (js e) fnArgs of
             None \<Rightarrow> None
           | Some shown \<Rightarrow> Some (fnArgs, shown)))"

text \<open>Lines 511 to 584: the tool named by the call runs on the parsed arguments.\<close>

definition run_tool ::
  "agent_env \<Rightarrow> jstring \<Rightarrow> TableSchema list \<Rightarrow> tool_call \<Rightarrow> jsval \<Rightarrow> agent_state \<Rightarrow>
   ((jstring \<times> agent_state) + agent_state) option" where
  "run_tool e question schema toolCall fnArgs st =
     (if tc_name toolCall = asc ''get_database_schema'' then
        Some (Inr (observe e toolCall (schema_text schema) (ResultSchema schema) st))
      else if tc_name toolCall = asc ''run_sql'' then
        (case run_sql_tool e question fnArgs st of
           None \<Rightarrow> None
         | Some (Inl thrown) \<Rightarrow> Some (Inl thrown)
         | Some (Inr (resultString, queryResult, st')) \<Rightarrow>
             Some (Inr (observe e toolCall resultString (ResultQuery queryResult) st')))
      else Some (Inr (observe e toolCall unknown_tool_text ResultNull st)))"

text \<open>
  The body of the loop over \<^verbatim>\<open>toolCallsBuffer\<close> (lines 480 to 600) for one element. A hole of
  the buffer is \<^verbatim>\<open>undefined\<close>, and reading its \<^verbatim>\<open>function\<close> throws. When the arguments do
  not parse, the action step is marked as an error, the observation is the fixed error
  text and no tool runs.
\<close>

definition open_action :: "agent_env \<Rightarrow> tool_call \<Rightarrow> agent_state \<Rightarrow> agent_state" where
  "open_action e toolCall st =
     (let (aid, st1) = fresh_id e (asc ''action-'') st
      in pushStep
           \<lparr>step_id = aid, step_type = Action, step_content = asc ''parsing...'',
            step_status = Streaming, step_toolName = Some (tc_name toolCall), step_result = None\<rparr> st1)"

definition dispatch_call ::
  "agent_env \<Rightarrow> jstring \<Rightarrow> TableSchema list \<Rightarrow> tool_call option \<Rightarrow> agent_state \<Rightarrow>
   ((jstring \<times> agent_state) + agent_state) option" where
  "dispatch_call e question schema slot st =
     (case slot of
        None \<Rightarrow> Some (Inl (error_text (js e) (ReadOf JUndefined (asc ''function'')), st))
      | Some toolCall \<Rightarrow>
          (let st2 = open_action e toolCall st
           in case parse_arguments e (tc_arguments toolCall) of
                None \<Rightarrow>
                  Some (Inr (observe e toolCall invalid_json_text ResultNull
                    (notify (set_last (\<lambda>l. l\<lparr>step_content := asc ''Error parsing: '' @ tc_arguments toolCall,
                                              step_status := Error\<rparr>) st2))))
              | Some (fnArgs, shown) \<Rightarrow>
                  run_tool e question schema toolCall fnArgs
                    (notify (set_last (\<lambda>l. l\<lparr>step_content := shown, step_status := Complete\<rparr>) st2))))"

fun dispatch_all ::
  "agent_env \<Rightarrow> jstring \<Rightarrow> TableSchema list \<Rightarrow> tool_call option list \<Rightarrow> agent_state \<Rightarrow>
   ((jstring \<times> agent_state) + agent_state) option" where
  "dispatch_all e question schema [] st = Some (Inr st)"
| "dispatch_all e question schema (slot # slots) st =
     (case dispatch_call e question schema slot st of
        None \<Rightarrow> None
      | Some (Inl thrown) \<Rightarrow> Some (Inl thrown)
      | Some (Inr st') \<Rightarrow> dispatch_all e question schema slots st')"

datatype control = Continue | Break

text \<open>
  Lines 464 to 471: the rescue is consulted only when the buffer is empty, and a call it
  finds becomes the only element of the buffer.
\<close>

definition rescue ::
  "agent_env \<Rightarrow> jstring \<Rightarrow> tool_call option list \<Rightarrow> agent_state \<Rightarrow>
   tool_call option list \<times> agent_state" where
  "rescue e currentThought toolCallsBuffer st =
     (if length toolCallsBuffer = 0 then
        (case detectManualToolCall (clock e (ticks st)) currentThought of
           Some manualCall \<Rightarrow> (toolCallsBuffer @ [Some manualCall], st\<lparr>ticks := ticks st + 1\<rparr>)
         | None \<Rightarrow> (toolCallsBuffer, st))
      else (toolCallsBuffer, st))"

text \<open>The \<^verbatim>\<open>try\<close> block of one iteration (lines 429 to 609).\<close>

definition try_block ::
  "agent_env \<Rightarrow> jstring \<Rightarrow> TableSchema list \<Rightarrow> agent_state \<Rightarrow>
   ((jstring \<times> agent_state) + (control \<times> agent_state)) option" where
  "try_block e question schema st =
     (let r = llm e (messages st);
          (currentThought, streamed, st1) = consume_stream (chunks r) [] [] st
      in case failure r of
           Some msg \<Rightarrow> Some (Inl (msg, st1))
         | None \<Rightarrow>
             (let st2 = updateLastStep currentThought Complete st1;
                  (toolCallsBuffer, st3) = rescue e currentThought streamed st2
              in if length toolCallsBuffer > 0 then
                   (case dispatch_all e question schema toolCallsBuffer
                           (st3\<lparr>messages := messages st3 @ [AssistantToolCalls toolCallsBuffer]\<rparr>) of
                      None \<Rightarrow> None
                    | Some (Inl thrown) \<Rightarrow> Some (Inl thrown)
                    | Some (Inr st4) \<Rightarrow> Some (Inr (Continue, st4)))
                 else
                   Some (Inr (Break,
                     if currentThought \<noteq> [] then
                       st3\<lparr>answers := answers st3 @ [currentThought],
                           messages := messages st3 @ [AssistantMessage currentThought]\<rparr>
                     else st3))))"

text \<open>
  One pass through the body of the \<^verbatim>\<open>while\<close> loop: the thought step is opened (lines 418
  to 424), the \<^verbatim>\<open>try\<close> block runs, and the \<^verbatim>\<open>catch\<close> (lines 610 to 620) records a thrown
  error in a new step and leaves the loop.
\<close>

definition open_thought :: "agent_env \<Rightarrow> agent_state \<Rightarrow> agent_state" where
  "open_thought e st =
     (let (currentStepId, st1) = fresh_id e (asc ''step-'') st
      in pushStep
           \<lparr>step_id = currentStepId, step_type = Thought, step_content = [],
            step_status = Streaming, step_toolName = None, step_result = None\<rparr> st1)"

definition record_error :: "agent_env \<Rightarrow> jstring \<Rightarrow> agent_state \<Rightarrow> agent_state" where
  "record_error e msg st =
     (let (eid, st1) = fresh_id e (asc ''err-'') st
      in pushStep
           \<lparr>step_id = eid, step_type = Thought, step_content = asc ''Agent Error: '' @ msg,
            step_status = Error, step_toolName = None, step_result = None\<rparr> st1)"

definition iterate ::
  "agent_env \<Rightarrow> jstring \<Rightarrow> TableSchema list \<Rightarrow> agent_state \<Rightarrow> (control \<times> agent_state) option" where
  "iterate e question schema st =
     (case try_block e question schema (open_thought e st) of
        None \<Rightarrow> None
      | Some (Inr (c, st')) \<Rightarrow> Some (c, st')
      | Some (Inl (msg, st')) \<Rightarrow> Some (Break, record_error e msg st'))"

text \<open>
  The \<^verbatim>\<open>while\<close> loop: the number of iterations started and the final state.
\<close>

function agent_loop ::
  "agent_env \<Rightarrow> jstring \<Rightarrow> TableSchema list \<Rightarrow> nat \<Rightarrow> agent_state \<Rightarrow> (nat \<times> agent_state) option" where
  "agent_loop e question schema iteration st =
     (if iteration < MAX_ITERATIONS then
        (case iterate e question schema st of
           None \<Rightarrow> None
         | Some (Break, st') \<Rightarrow> Some (iteration + 1, st')
         | Some (Continue, st') \<Rightarrow> agent_loop e question schema (iteration + 1) st')
      else Some (iteration, st))"
  by pat_completeness auto
termination
  by (relation "measure (\<lambda>(e, question, schema, iteration, st). MAX_ITERATIONS - iteration)") auto

declare agent_loop.simps [simp del]

definition initial_state :: "agent_env \<Rightarrow> jstring \<Rightarrow> agent_state" where
  "initial_state e question =
     \<lparr>steps = [], messages = [SystemMessage (system_prompt e), UserMessage question],
      updates = [], answers = [], ticks = 0, executed = []\<rparr>"

text \<open>
  \<^verbatim>\<open>runAgent\<close>: without an API key it throws before any iteration; otherwise the loop runs
  from the initial state.
\<close>

definition runAgent ::
  "agent_env \<Rightarrow> jstring \<Rightarrow> jstring \<Rightarrow> TableSchema list \<Rightarrow> jstring + (nat \<times> agent_state) option" where
  "runAgent e apiKey question schema =
     (if apiKey = [] then Inl (asc ''API Key '' @ [26410, 37197, 32622])
      else Inr (agent_loop e question schema 0 (initial_state e question)))"


section \<open>Notions of the specification and example environments\<close>

text \<open>
  What a streamed turn assembles, apart from the step updates: the thought text and the
  structured tool calls.
\<close>

definition assembled_thought :: "delta list \<Rightarrow> jstring" where
  "assembled_thought ds =
     concat (map (\<lambda>d. case d_content d of None \<Rightarrow> [] | Some c \<Rightarrow> strip_close_tag c) ds)"

definition assembled_calls :: "delta list \<Rightarrow> tool_call option list" where
  "assembled_calls ds = foldl (\<lambda>buf d. foldl merge_fragment buf (d_tool_calls d)) [] ds"

text \<open>
  An environment whose model, completion service and engine always answer the same, and a
  turn that consists of one complete tool call.
\<close>

definition demo_js :: js_env where
  "demo_js =
     \<lparr>stringify = (\<lambda>v. Some (asc ''[data]'')), number_to_string = (\<lambda>r. asc ''0''),
      error_text = (\<lambda>t. asc ''TypeError''), inherited = (\<lambda>v k. JUndefined)\<rparr>"

definition demo_env :: "stream_result \<Rightarrow> completion \<Rightarrow> alasql_outcome \<Rightarrow> agent_env" where
  "demo_env turn answer outcome =
     \<lparr>js = demo_js, system_prompt = asc ''system'', llm = (\<lambda>ms. turn),
      summarize = (\<lambda>ms i request. answer), alasql = (\<lambda>history sql. outcome), clock = (\<lambda>n. n)\<rparr>"

definition call_turn :: "jstring \<Rightarrow> jstring \<Rightarrow> stream_result" where
  "call_turn name arguments =
     \<lparr>chunks =
        [\<lparr>d_content = None,
          d_tool_calls =
            [\<lparr>tcd_index = 0, tcd_id = Some (asc ''call_1''), tcd_name = Some name,
              tcd_arguments = Some arguments\<rparr>]\<rparr>],
      failure = None\<rparr>"

definition silent_turn :: stream_result where
  "silent_turn = \<lparr>chunks = [], failure = None\<rparr>"

definition broken_turn :: stream_result where
  "broken_turn =
     \<lparr>chunks = [\<lparr>d_content = Some (asc ''Let me look''), d_tool_calls = []\<rparr>],
      failure = Some (asc ''network error'')\<rparr>"

text \<open>
  \<^verbatim>\<open>JSON.stringify\<close> on the values of the examples: a string, a boolean or \<^verbatim>\<open>null\<close>, and an
  object whose cells are such values. The examples hold no other value.
\<close>

fun json_cell :: "jsval \<Rightarrow> jstring option" where
  "json_cell JNull = Some (asc ''null'')"
| "json_cell (JBool b) = Some (if b then asc ''true'' else asc ''false'')"
| "json_cell (JStr s) = Some (json_quote s)"
| "json_cell v = None"

definition json_member :: "jstring \<times> jsval \<Rightarrow> jstring" where
  "json_member kv =
     json_quote (fst kv) @ asc '':'' @ (case json_cell (snd kv) of Some t \<Rightarrow> t | None \<Rightarrow> [])"

definition flat_stringify :: "jsval \<Rightarrow> jstring option" where
  "flat_stringify v =
     (case v of
        JObj kvs \<Rightarrow>
          if list_all (\<lambda>kv. json_cell (snd kv) \<noteq> None) kvs
          then Some (asc ''{'' @ join_with (asc '','') (map json_member kvs) @ asc ''}'')
          else None
      | _ \<Rightarrow> json_cell v)"

definition json_js :: js_env where
  "json_js =
     \<lparr>stringify = flat_stringify, number_to_string = (\<lambda>r. asc ''0''),
      error_text = (\<lambda>t. asc ''TypeError''), inherited = (\<lambda>v k. JUndefined)\<rparr>"

text \<open>
  A row of 30 fields: 16 booleans and 14 strings, 13 of 11 characters and one of 14. Its
  serialization has 400 characters.
\<close>

definition wide_row :: jsval where
  "wide_row =
     JObj
      [(asc ''a'', JBool True), (asc ''b'', JBool True), (asc ''c'', JBool True),
        (asc ''d'', JBool True), (asc ''e'', JBool True), (asc ''f'', JBool True),
        (asc ''g'', JBool True), (asc ''h'', JBool True), (asc ''i'', JBool True),
        (asc ''j'', JBool True), (asc ''k'', JBool True), (asc ''l'', JBool True),
        (asc ''m'', JBool True), (asc ''n'', JBool True), (asc ''o'', JBool True),
        (asc ''p'', JBool True), (asc ''A'', JStr (asc ''xxxxxxxxxxx'')),
        (asc ''B'', JStr (asc ''xxxxxxxxxxx'')), (asc ''C'', JStr (asc ''xxxxxxxxxxx'')),
        (asc ''D'', JStr (asc ''xxxxxxxxxxx'')), (asc ''E'', JStr (asc ''xxxxxxxxxxx'')),
        (asc ''F'', JStr (asc ''xxxxxxxxxxx'')), (asc ''G'', JStr (asc ''xxxxxxxxxxx'')),
        (asc ''H'', JStr (asc ''xxxxxxxxxxx'')), (asc ''I'', JStr (asc ''xxxxxxxxxxx'')),
        (asc ''J'', JStr (asc ''xxxxxxxxxxx'')), (asc ''K'', JStr (asc ''xxxxxxxxxxx'')),
        (asc ''L'', JStr (asc ''xxxxxxxxxxx'')), (asc ''M'', JStr (asc ''xxxxxxxxxxx'')),
        (asc ''N'', JStr (asc ''xxxxxxxxxxxxxx''))]"

text \<open>
  A completion service that answers the first request, fails on the second and answers
  every later one.
\<close>

definition demo_ask :: "nat \<Rightarrow> compress_request \<Rightarrow> completion" where
  "demo_ask i request =
     (if i = 0 then Content (Some (asc ''A'')) else if i = 1 then Failed else Content (Some (asc ''C'')))"

text \<open>A complete tool call, and the text of the last step a dispatch leaves.\<close>

definition demo_call :: "jstring \<Rightarrow> jstring \<Rightarrow> tool_call" where
  "demo_call name arguments = \<lparr>tc_id = Some (asc ''call_1''), tc_name = name, tc_arguments = arguments\<rparr>"

definition last_content :: "((jstring \<times> agent_state) + agent_state) option \<Rightarrow> jstring option" where
  "last_content r =
     (case r of
        Some (Inr s) \<Rightarrow> if steps s = [] then None else Some (step_content (last (steps s)))
      | _ \<Rightarrow> None)"


section \<open>Evaluation rules\<close>

lemmas str_eval = asc_def is_js_space_def js_trim_def starts_with_def starts_with_ci_def
  lower_ascii_def is_word_char_def is_digit_def is_quote_def is_backtick_def

lemmas json_eval = json_parse_def is_json_ws_def hex_value_def simple_escape_def lex_number_def
  digits_value_def array_index_def obj_put_def

lemmas sanitize_eval = sanitizeSql_def alias_pass_def wrapChineseIdentifierInOrderGroup_def
  alias_match_def alias_group_def alias_stop_def alias_callback_def strip_ends_def
  fully_bracketed_def is_ascii_ident_def is_cjk_def has_cjk_def replace_first_def clause_match_def
  segment_callback_def direction_part_def ident_stop_def cjk_word_def Let_def


section \<open>Rounding to binary64\<close>

lemma pow2_pos: "0 < pow2 k"
  by (simp add: pow2_def)

lemma pow2_powr: "pow2 k = 2 powr (real_of_int k)"
  by (simp add: pow2_def powr_realpow [symmetric] powr_minus divide_inverse)

lemma pow2_add: "pow2 (a + b) = pow2 a * pow2 b"
  by (simp add: pow2_powr powr_add)

lemma pow2_mono: "a \<le> b \<Longrightarrow> pow2 a \<le> pow2 b"
  by (simp add: pow2_powr)

lemma pow2_nat: "pow2 (int n) = 2 ^ n"
  by (simp add: pow2_def)

lemma bit_length_upper: "n < 2 ^ bit_length n"
proof (induction n rule: bit_length.induct)
  case (1 n)
  show ?case
  proof (cases "n = 0")
    case True
    then show ?thesis by (simp add: bit_length.simps)
  next
    case False
    with 1 have "n div 2 < 2 ^ bit_length (n div 2)" by simp
    then have "n < 2 * 2 ^ bit_length (n div 2)" by linarith
    with False show ?thesis by (subst bit_length.simps) simp
  qed
qed

lemma bit_length_lower: "0 < n \<Longrightarrow> 2 ^ (bit_length n - 1) \<le> n"
proof (induction n rule: bit_length.induct)
  case (1 n)
  then have nz: "n \<noteq> 0" by simp
  show ?case
  proof (cases "n div 2 = 0")
    case True
    then have "bit_length (n div 2) = 0" by (simp add: bit_length.simps)
    with nz have "bit_length n = 1" by (subst bit_length.simps) simp
    with 1(2) show ?thesis by simp
  next
    case False
    with 1(1) nz have ih: "2 ^ (bit_length (n div 2) - 1) \<le> n div 2" by simp
    have pos: "0 < bit_length (n div 2)" using False by (subst bit_length.simps) simp
    have "bit_length n = Suc (bit_length (n div 2))" using nz by (subst bit_length.simps) simp
    then have "bit_length n - 1 = Suc (bit_length (n div 2) - 1)" using pos by simp
    then have "(2::nat) ^ (bit_length n - 1) = 2 * 2 ^ (bit_length (n div 2) - 1)" by simp
    also have "\<dots> \<le> 2 * (n div 2)" using ih by simp
    also have "\<dots> \<le> n" by simp
    finally show ?thesis .
  qed
qed

lemma bit_length_pos: "0 < n \<Longrightarrow> 0 < bit_length n"
  by (subst bit_length.simps) simp

lemma bit_length_lower_real: "0 < n \<Longrightarrow> (2::real) ^ (bit_length n - 1) \<le> real n"
  using of_nat_mono [OF bit_length_lower, where 'a = real] by simp

lemma bit_length_upper_real: "real n + 1 \<le> 2 ^ bit_length n"
proof -
  have "n + 1 \<le> 2 ^ bit_length n" using bit_length_upper [of n] by simp
  then have "real (n + 1) \<le> real (2 ^ bit_length n)" by (rule of_nat_mono)
  then show ?thesis by simp
qed

lemma pow2_neg_nat: "pow2 (- int k) = 1 / 2 ^ k"
  by (simp add: pow2_powr powr_minus powr_realpow divide_inverse)

lemma exponent_bounds:
  assumes "0 < x"
  shows "pow2 (exponent x) \<le> x \<and> x < pow2 (exponent x + 1)"
proof (cases "1 \<le> x")
  case True
  define n where "n = nat \<lfloor>x\<rfloor>"
  have n1: "0 < n" using True by (simp add: n_def)
  have nx: "real n \<le> x" "x < real n + 1" using True by (simp_all add: n_def)
  have e: "exponent x = int (bit_length n) - 1" using True by (simp add: exponent_def n_def)
  have bp: "0 < bit_length n" using n1 by (rule bit_length_pos)
  then have e': "exponent x = int (bit_length n - 1)" "exponent x + 1 = int (bit_length n)"
    using e by simp_all
  have lo: "pow2 (exponent x) \<le> x"
    unfolding e'(1) pow2_nat using bit_length_lower_real [OF n1] nx(1) by linarith
  have hi: "x < pow2 (exponent x + 1)"
    unfolding e'(2) pow2_nat using bit_length_upper_real [of n] nx(2) by linarith
  from lo hi show ?thesis ..
next
  case False
  define y where "y = 1 / x"
  have y1: "1 < y" using False assms by (simp add: y_def)
  define n where "n = nat (\<lceil>y\<rceil> - 1)"
  have c2: "2 \<le> \<lceil>y\<rceil>" using y1 by linarith
  then have n1: "0 < n" by (simp add: n_def)
  have nn: "int n = \<lceil>y\<rceil> - 1" using c2 by (simp add: n_def)
  have ny: "real n < y" "y \<le> real n + 1"
  proof -
    have "real_of_int (int n) < y" unfolding nn by linarith
    then show "real n < y" by simp
    have "y \<le> real_of_int (int n) + 1" unfolding nn by linarith
    then show "y \<le> real n + 1" by simp
  qed
  have e: "exponent x = - int (bit_length n)" using False by (simp add: exponent_def n_def y_def)
  have bp: "0 < bit_length n" using n1 by (rule bit_length_pos)
  have "y \<le> 2 ^ bit_length n" using bit_length_upper_real [of n] ny(2) by linarith
  then have "1 / x \<le> 2 ^ bit_length n" by (simp add: y_def)
  then have "1 \<le> 2 ^ bit_length n * x" using assms by (simp add: field_simps)
  then have lo: "pow2 (exponent x) \<le> x"
    using bp by (simp add: e pow2_def field_simps)
  obtain m where m: "bit_length n = Suc m" using bp by (cases "bit_length n") simp_all
  have "(2::real) ^ m \<le> real n" using bit_length_lower_real [OF n1] unfolding m by simp
  then have "2 ^ m < y" using ny(1) by linarith
  then have "2 ^ m < 1 / x" by (simp add: y_def)
  then have lt: "2 ^ m * x < 1" using assms by (simp add: field_simps)
  have "exponent x + 1 = - int m" using e m by simp
  then have "pow2 (exponent x + 1) = 1 / 2 ^ m" by (simp only: pow2_neg_nat)
  moreover have "x < 1 / 2 ^ m" using lt by (simp add: field_simps)
  ultimately have hi: "x < pow2 (exponent x + 1)" by simp
  from lo hi show ?thesis ..
qed

lemma exponent_unique:
  assumes "pow2 e \<le> x" "x < pow2 (e + 1)"
  shows "exponent x = e"
proof -
  have x: "0 < x" using assms(1) pow2_pos [of e] by linarith
  note b = exponent_bounds [OF x]
  have "\<not> exponent x + 1 \<le> e"
  proof
    assume "exponent x + 1 \<le> e"
    then have "pow2 (exponent x + 1) \<le> pow2 e" by (rule pow2_mono)
    with b assms show False by linarith
  qed
  moreover have "\<not> e + 1 \<le> exponent x"
  proof
    assume "e + 1 \<le> exponent x"
    then have "pow2 (e + 1) \<le> pow2 (exponent x)" by (rule pow2_mono)
    with b assms show False by linarith
  qed
  ultimately show ?thesis by linarith
qed

lemma exponent_mono:
  assumes "0 < x" "x \<le> y"
  shows "exponent x \<le> exponent y"
proof (rule ccontr)
  assume "\<not> exponent x \<le> exponent y"
  then have "exponent y + 1 \<le> exponent x" by simp
  then have "pow2 (exponent y + 1) \<le> pow2 (exponent x)" by (rule pow2_mono)
  moreover have "0 < y" using assms by linarith
  ultimately show False
    using exponent_bounds [OF assms(1)] exponent_bounds [OF \<open>0 < y\<close>] assms(2) by linarith
qed

lemma round_ties_even_error: "\<bar>of_int (round_ties_even x) - x\<bar> \<le> 1 / 2"
  unfolding round_ties_even_def Let_def by (auto simp add: abs_if) linarith+

lemma round_ties_even_of_int: "round_ties_even (of_int k) = k"
  by (simp add: round_ties_even_def)

lemma round_ties_even_mono:
  assumes "x \<le> y"
  shows "round_ties_even x \<le> round_ties_even y"
proof (cases "\<lfloor>x\<rfloor> = \<lfloor>y\<rfloor>")
  case True
  then show ?thesis using assms by (auto simp add: round_ties_even_def Let_def)
next
  case False
  have "\<lfloor>x\<rfloor> \<le> \<lfloor>y\<rfloor>" using assms by (rule floor_mono)
  with False have lt: "\<lfloor>x\<rfloor> + 1 \<le> \<lfloor>y\<rfloor>" by simp
  have "round_ties_even x \<le> \<lfloor>x\<rfloor> + 1" by (simp add: round_ties_even_def Let_def)
  moreover have "\<lfloor>y\<rfloor> \<le> round_ties_even y" by (simp add: round_ties_even_def Let_def)
  ultimately show ?thesis using lt by linarith
qed

lemma binary64_zero: "binary64 0 = 0"
  by (simp add: binary64_def)

lemma binary64_minus: "binary64 (- x) = - binary64 x"
  by (simp add: binary64_def Let_def sgn_if)

lemma binary64_pos_eq:
  assumes "0 < x"
  shows "binary64 x = of_int (round_ties_even (x / pow2 (exponent x - 52))) * pow2 (exponent x - 52)"
  using assms by (simp add: binary64_def Let_def)

lemma pow2_52: "pow2 52 = 2 ^ 52" "pow2 53 = 2 ^ 53"
  by (simp_all add: pow2_def)

lemma pow2_split: "pow2 e = 2 ^ 52 * pow2 (e - 52)" "pow2 (e + 1) = 2 ^ 53 * pow2 (e - 52)"
proof -
  have "pow2 (e - 52 + 52) = pow2 (e - 52) * pow2 52" by (rule pow2_add)
  then show "pow2 e = 2 ^ 52 * pow2 (e - 52)" by (simp add: pow2_52)
  have "e + 1 = e - 52 + 53" by simp
  then have "pow2 (e + 1) = pow2 (e - 52 + 53)" by (rule arg_cong)
  also have "\<dots> = pow2 (e - 52) * pow2 53" by (rule pow2_add)
  finally show "pow2 (e + 1) = 2 ^ 53 * pow2 (e - 52)" by (simp add: pow2_52)
qed

lemma scaled_bounds:
  assumes "0 < x"
  shows "2 ^ 52 \<le> x / pow2 (exponent x - 52) \<and> x / pow2 (exponent x - 52) < 2 ^ 53"
proof -
  let ?e = "exponent x"
  have u: "0 < pow2 (?e - 52)" by (rule pow2_pos)
  from exponent_bounds [OF assms] have "2 ^ 52 * pow2 (?e - 52) \<le> x" "x < 2 ^ 53 * pow2 (?e - 52)"
    unfolding pow2_split [symmetric] by simp_all
  then show ?thesis using u by (simp add: field_simps)
qed

lemma mantissa_bounds:
  assumes "0 < x"
  shows "2 ^ 52 \<le> round_ties_even (x / pow2 (exponent x - 52)) \<and>
         round_ties_even (x / pow2 (exponent x - 52)) \<le> 2 ^ 53"
proof -
  let ?z = "x / pow2 (exponent x - 52)"
  from scaled_bounds [OF assms] have z: "of_int (2 ^ 52) \<le> ?z" "?z \<le> of_int (2 ^ 53)" by simp_all
  from round_ties_even_mono [OF z(1)] round_ties_even_mono [OF z(2)]
  show ?thesis by (simp only: round_ties_even_of_int)
qed

lemma binary64_bounds:
  assumes "0 < x"
  shows "pow2 (exponent x) \<le> binary64 x \<and> binary64 x \<le> pow2 (exponent x + 1)"
proof -
  let ?e = "exponent x"
  let ?m = "round_ties_even (x / pow2 (?e - 52))"
  have u: "0 < pow2 (?e - 52)" by (rule pow2_pos)
  note a = pow2_split(1) [of ?e] and b = pow2_split(2) [of ?e]
  from mantissa_bounds [OF assms] have "(2::real) ^ 52 \<le> of_int ?m" "of_int ?m \<le> (2::real) ^ 53"
    by simp_all
  then have "2 ^ 52 * pow2 (?e - 52) \<le> of_int ?m * pow2 (?e - 52)"
    "of_int ?m * pow2 (?e - 52) \<le> 2 ^ 53 * pow2 (?e - 52)"
    using u by (simp_all add: mult_right_mono)
  then show ?thesis unfolding a b binary64_pos_eq [OF assms] by simp
qed

lemma binary64_pos: "0 < x \<Longrightarrow> 0 < binary64 x"
  using binary64_bounds [of x] pow2_pos [of "exponent x"] by linarith

lemma binary64_nonneg: "0 \<le> x \<Longrightarrow> 0 \<le> binary64 x"
  using binary64_pos [of x] by (cases "x = 0") (simp_all add: binary64_zero less_eq_real_def)

lemma binary64_mono_pos:
  assumes "0 < x" "x \<le> y"
  shows "binary64 x \<le> binary64 y"
proof -
  have y: "0 < y" using assms by linarith
  have le: "exponent x \<le> exponent y" using assms by (rule exponent_mono)
  show ?thesis
  proof (cases "exponent x = exponent y")
    case True
    let ?u = "pow2 (exponent y - 52)"
    have u: "0 < ?u" by (rule pow2_pos)
    then have "x / ?u \<le> y / ?u" using assms(2) by (simp add: divide_right_mono)
    then have "round_ties_even (x / ?u) \<le> round_ties_even (y / ?u)" by (rule round_ties_even_mono)
    then have "real_of_int (round_ties_even (x / ?u)) \<le> real_of_int (round_ties_even (y / ?u))"
      by simp
    then have "real_of_int (round_ties_even (x / ?u)) * ?u \<le> real_of_int (round_ties_even (y / ?u)) * ?u"
      using u by (simp add: mult_right_mono)
    then show ?thesis unfolding binary64_pos_eq [OF assms(1)] binary64_pos_eq [OF y] True .
  next
    case False
    with le have "exponent x + 1 \<le> exponent y" by simp
    then have "pow2 (exponent x + 1) \<le> pow2 (exponent y)" by (rule pow2_mono)
    with binary64_bounds [OF assms(1)] binary64_bounds [OF y] show ?thesis by linarith
  qed
qed

lemma binary64_mono:
  assumes "x \<le> y"
  shows "binary64 x \<le> binary64 y"
proof -
  consider "0 < x" | "x \<le> 0" "0 \<le> y" | "y < 0" by linarith
  then show ?thesis
  proof cases
    case 1
    then show ?thesis using assms by (rule binary64_mono_pos)
  next
    case 2
    have "0 \<le> binary64 (- x)" using 2(1) by (intro binary64_nonneg) simp
    then have "binary64 x \<le> 0" by (simp add: binary64_minus)
    moreover have "0 \<le> binary64 y" using 2(2) by (rule binary64_nonneg)
    ultimately show ?thesis by linarith
  next
    case 3
    then have "0 < - y" "- y \<le> - x" using assms by simp_all
    then have "binary64 (- y) \<le> binary64 (- x)" by (rule binary64_mono_pos)
    then show ?thesis by (simp add: binary64_minus)
  qed
qed

lemma binary64_error_pos:
  assumes "0 < x"
  shows "\<bar>binary64 x - x\<bar> \<le> x / 2 ^ 53"
proof -
  let ?e = "exponent x"
  let ?u = "pow2 (?e - 52)"
  let ?m = "round_ties_even (x / ?u)"
  have u: "0 < ?u" by (rule pow2_pos)
  have "\<bar>of_int ?m - x / ?u\<bar> \<le> 1 / 2" by (rule round_ties_even_error)
  then have "\<bar>of_int ?m - x / ?u\<bar> * ?u \<le> 1 / 2 * ?u" using u by (simp add: mult_right_mono)
  moreover have "\<bar>of_int ?m - x / ?u\<bar> * ?u = \<bar>of_int ?m * ?u - x\<bar>"
  proof -
    have "\<bar>of_int ?m - x / ?u\<bar> * ?u = \<bar>(of_int ?m - x / ?u) * ?u\<bar>"
      using u by (simp add: abs_mult)
    also have "(of_int ?m - x / ?u) * ?u = of_int ?m * ?u - x"
      using u by (simp add: field_simps)
    finally show ?thesis .
  qed
  ultimately have e1: "\<bar>binary64 x - x\<bar> \<le> ?u / 2"
    unfolding binary64_pos_eq [OF assms] by simp
  note a = pow2_split(1) [of ?e]
  from exponent_bounds [OF assms] have "2 ^ 52 * ?u \<le> x" unfolding a by simp
  then have "?u / 2 \<le> x / 2 ^ 53" by (simp add: field_simps)
  with e1 show ?thesis by linarith
qed

lemma binary64_error: "\<bar>binary64 x - x\<bar> \<le> \<bar>x\<bar> / 2 ^ 53"
proof -
  consider "0 < x" | "x = 0" | "x < 0" by linarith
  then show ?thesis
  proof cases
    case 1
    then show ?thesis using binary64_error_pos [of x] by simp
  next
    case 2
    then show ?thesis by (simp add: binary64_zero)
  next
    case 3
    then have "\<bar>binary64 (- x) - (- x)\<bar> \<le> (- x) / 2 ^ 53" by (intro binary64_error_pos) simp
    moreover have "\<bar>binary64 (- x) - (- x)\<bar> = \<bar>binary64 x - x\<bar>"
      unfolding binary64_minus by (simp add: abs_minus_commute)
    ultimately show ?thesis using 3 by simp
  qed
qed

lemma round_ties_even_eqI:
  assumes "\<bar>of_int m - x\<bar> < 1 / 2"
  shows "round_ties_even x = m"
proof -
  have "\<bar>of_int (round_ties_even x) - x\<bar> \<le> 1 / 2" by (rule round_ties_even_error)
  with assms have "\<bar>real_of_int (round_ties_even x) - real_of_int m\<bar> < 1" by linarith
  then have "\<bar>real_of_int (round_ties_even x - m)\<bar> < 1" by simp
  then have "\<bar>round_ties_even x - m\<bar> < 1" by linarith
  then show ?thesis by simp
qed

lemma binary64_eqI:
  assumes "pow2 e \<le> x" "x < pow2 (e + 1)" "\<bar>of_int m - x / pow2 (e - 52)\<bar> < 1 / 2"
  shows "binary64 x = of_int m * pow2 (e - 52)"
proof -
  have x: "0 < x" using assms(1) pow2_pos [of e] by linarith
  have e: "exponent x = e" using assms(1,2) by (rule exponent_unique)
  show ?thesis unfolding binary64_pos_eq [OF x] e round_ties_even_eqI [OF assms(3)] ..
qed

lemma binary64_exact:
  assumes "pow2 e \<le> x" "x < pow2 (e + 1)" "x = of_int m * pow2 (e - 52)"
  shows "binary64 x = x"
proof -
  have "of_int m - x / pow2 (e - 52) = 0" using pow2_pos [of "e - 52"] assms(3) by simp
  then have "\<bar>of_int m - x / pow2 (e - 52)\<bar> < 1 / 2" by simp
  from binary64_eqI [OF assms(1,2) this] assms(3) show ?thesis by simp
qed

lemma round_ties_even_tie:
  assumes "\<bar>of_int m - x\<bar> = 1 / 2" "even m"
  shows "round_ties_even x = m"
proof -
  consider "x = of_int m + 1 / 2" | "x = of_int m - 1 / 2" using assms(1) by (auto simp add: abs_if split: if_splits)
  then show ?thesis
  proof cases
    case 1
    then have "\<lfloor>x\<rfloor> = m" by linarith
    with 1 assms(2) show ?thesis by (simp add: round_ties_even_def Let_def)
  next
    case 2
    then have "\<lfloor>x\<rfloor> = m - 1" by linarith
    with 2 assms(2) show ?thesis by (simp add: round_ties_even_def Let_def)
  qed
qed

lemma binary64_cert:
  assumes "pow2 e \<le> x" "x < pow2 (e + 1)"
    and "\<bar>of_int m - x / pow2 (e - 52)\<bar> < 1 / 2 \<or> (\<bar>of_int m - x / pow2 (e - 52)\<bar> = 1 / 2 \<and> even m)"
    and "y = of_int m * pow2 (e - 52)"
  shows "binary64 x = y"
proof -
  have x: "0 < x" using assms(1) pow2_pos [of e] by linarith
  have e: "exponent x = e" using assms(1,2) by (rule exponent_unique)
  have "round_ties_even (x / pow2 (e - 52)) = m"
    using assms(3) round_ties_even_eqI round_ties_even_tie by blast
  then show ?thesis unfolding binary64_pos_eq [OF x] e assms(4) by simp
qed

lemma binary64_int_small:
  "binary64 1 = 1" "binary64 2 = 2" "binary64 3 = 3" "binary64 5 = 5" "binary64 95 = 95" "binary64 100 = 100"
  "binary64 0.5 = 0.5"
proof -
  show "binary64 1 = 1" by (rule binary64_exact [where e = 0 and m = "2 ^ 52"]) (simp_all add: pow2_def)
  show "binary64 2 = 2" by (rule binary64_exact [where e = 1 and m = "2 ^ 52"]) (simp_all add: pow2_def)
  show "binary64 3 = 3" by (rule binary64_exact [where e = 1 and m = "3 * 2 ^ 51"]) (simp_all add: pow2_def)
  show "binary64 5 = 5" by (rule binary64_exact [where e = 2 and m = "5 * 2 ^ 50"]) (simp_all add: pow2_def)
  show "binary64 95 = 95" by (rule binary64_exact [where e = 6 and m = "95 * 2 ^ 46"]) (simp_all add: pow2_def)
  show "binary64 100 = 100" by (rule binary64_exact [where e = 6 and m = "100 * 2 ^ 46"]) (simp_all add: pow2_def)
  show "binary64 0.5 = 0.5" by (rule binary64_exact [where e = "-1" and m = "2 ^ 52"]) (simp_all add: pow2_def)
qed

section \<open>The batch sizer in binary64 arithmetic\<close>

lemma binary64_unit: "0 \<le> x \<Longrightarrow> x \<le> 1 \<Longrightarrow> 0 \<le> binary64 x \<and> binary64 x \<le> 1"
  using binary64_nonneg [of x] binary64_mono [of x 1] by (simp add: binary64_int_small)

lemma binary64_range:
  assumes "binary64 lo = lo" "binary64 hi = hi" "lo \<le> x" "x \<le> hi"
  shows "lo \<le> binary64 x \<and> binary64 x \<le> hi"
  using binary64_mono [OF assms(3)] binary64_mono [OF assms(4)] assms(1,2) by simp

lemma complexity_range: "0 \<le> complexity a l t g \<and> complexity a l t g \<le> 1"
  by (simp add: complexity_def)

lemma batch_from_metrics_floor:
  "batch_from_metrics a l t g = \<lfloor>js_sub 100 (js_mul 95 (complexity a l t g))\<rfloor> \<and>
   5 \<le> js_sub 100 (js_mul 95 (complexity a l t g)) \<and>
   js_sub 100 (js_mul 95 (complexity a l t g)) \<le> 100"
proof -
  let ?c = "complexity a l t g"
  from complexity_range [of a l t g] have c: "0 \<le> ?c" "?c \<le> 1" by simp_all
  have "0 \<le> 95 * ?c" "95 * ?c \<le> 95" using c by simp_all
  from binary64_range [OF binary64_zero binary64_int_small(5) this]
  have m: "0 \<le> js_mul 95 ?c" "js_mul 95 ?c \<le> 95" by (simp_all add: js_mul_def)
  then have "5 \<le> 100 - js_mul 95 ?c" "100 - js_mul 95 ?c \<le> 100" by simp_all
  from binary64_range [OF binary64_int_small(4) binary64_int_small(6) this]
  have b: "5 \<le> js_sub 100 (js_mul 95 ?c)" "js_sub 100 (js_mul 95 ?c) \<le> 100"
    by (simp_all add: js_sub_def)
  have "5 \<le> \<lfloor>js_sub 100 (js_mul 95 ?c)\<rfloor>" using b(1) by (simp add: le_floor_iff)
  moreover have "\<lfloor>js_sub 100 (js_mul 95 ?c)\<rfloor> \<le> 100"
    using floor_mono [OF b(2)] by simp
  moreover have "batch_from_metrics a l t g = max 5 (min \<lfloor>js_sub 100 (js_mul 95 ?c)\<rfloor> 100)"
    by (simp add: batch_from_metrics_def Let_def complexity_def js_sub_def [of 100 5] binary64_int_small)
  ultimately show ?thesis using b by simp
qed

lemma js_mul_mono: "0 \<le> w \<Longrightarrow> x \<le> y \<Longrightarrow> js_mul w x \<le> js_mul w y"
  unfolding js_mul_def by (intro binary64_mono mult_left_mono)

lemma js_add_mono: "x \<le> x' \<Longrightarrow> y \<le> y' \<Longrightarrow> js_add x y \<le> js_add x' y'"
  unfolding js_add_def by (intro binary64_mono add_mono)

lemma js_div_mono: "0 \<le> d \<Longrightarrow> x \<le> y \<Longrightarrow> js_div x d \<le> js_div y d"
  unfolding js_div_def by (intro binary64_mono divide_right_mono)

lemma weights_nonneg: "0 \<le> binary64 0.4" "0 \<le> binary64 0.3" "0 \<le> binary64 0.5"
  by (simp_all add: binary64_nonneg)

lemma complexity_mono:
  assumes "a \<le> a'" "l \<le> l'" "t \<le> t'" "g \<le> g'"
  shows "complexity a l t g \<le> complexity a' l' t' g'"
proof -
  have f: "min (js_div a 40) 1 \<le> min (js_div a' 40) 1"
    using assms(1) by (intro min.mono js_div_mono) simp_all
  have r: "min (js_div l 4000) 1 \<le> min (js_div l' 4000) 1"
    using assms(2) by (intro min.mono js_div_mono) simp_all
  have c: "js_add (js_mul (binary64 0.5) t) (js_mul (binary64 0.5) g)
      \<le> js_add (js_mul (binary64 0.5) t') (js_mul (binary64 0.5) g')"
    using assms(3,4) by (intro js_add_mono js_mul_mono weights_nonneg)
  have "js_add (js_add (js_mul (binary64 0.4) (min (js_div a 40) 1))
                       (js_mul (binary64 0.3) (min (js_div l 4000) 1)))
               (js_mul (binary64 0.3) (js_add (js_mul (binary64 0.5) t) (js_mul (binary64 0.5) g)))
      \<le> js_add (js_add (js_mul (binary64 0.4) (min (js_div a' 40) 1))
                       (js_mul (binary64 0.3) (min (js_div l' 4000) 1)))
               (js_mul (binary64 0.3) (js_add (js_mul (binary64 0.5) t') (js_mul (binary64 0.5) g')))"
    by (rule js_add_mono [OF js_add_mono [OF js_mul_mono [OF weights_nonneg(1) f]
          js_mul_mono [OF weights_nonneg(2) r]] js_mul_mono [OF weights_nonneg(2) c]])
  then show ?thesis unfolding complexity_def by (intro min.mono max.mono) simp_all
qed

lemma batch_from_metrics_mono:
  assumes "a \<le> a'" "l \<le> l'" "t \<le> t'" "g \<le> g'"
  shows "batch_from_metrics a' l' t' g' \<le> batch_from_metrics a l t g"
proof -
  have "complexity a l t g \<le> complexity a' l' t' g'" using assms by (rule complexity_mono)
  then have "js_mul 95 (complexity a l t g) \<le> js_mul 95 (complexity a' l' t' g')"
    by (intro js_mul_mono) simp_all
  then have "100 - js_mul 95 (complexity a' l' t' g') \<le> 100 - js_mul 95 (complexity a l t g)"
    by simp
  then have "js_sub 100 (js_mul 95 (complexity a' l' t' g')) \<le> js_sub 100 (js_mul 95 (complexity a l t g))"
    unfolding js_sub_def by (rule binary64_mono)
  then show ?thesis
    by (simp only: batch_from_metrics_floor floor_mono)
qed

lemma unit_roundoff_pos: "0 < unit_roundoff"
  by (simp add: unit_roundoff_def)

lemma unit_roundoff_small: "2500 * unit_roundoff < 1" "unit_roundoff \<le> 1 / 2"
  by (simp_all add: unit_roundoff_def)

lemma binary64_close:
  assumes "\<bar>y - x\<bar> \<le> d" "\<bar>y\<bar> \<le> M"
  shows "\<bar>binary64 y - x\<bar> \<le> d + M * unit_roundoff"
proof -
  have "\<bar>binary64 y - y\<bar> \<le> \<bar>y\<bar> * unit_roundoff"
    using binary64_error [of y] by (simp add: unit_roundoff_def)
  also have "\<dots> \<le> M * unit_roundoff"
    using assms(2) unit_roundoff_pos by (intro mult_right_mono) simp_all
  finally show ?thesis using assms(1) by linarith
qed

lemma product_close:
  fixes w c w0 c0 :: real
  assumes "\<bar>w - w0\<bar> \<le> dw" "\<bar>c - c0\<bar> \<le> dc" "0 \<le> c" "c \<le> 1" "0 \<le> w0" "w0 \<le> 1"
  shows "\<bar>w * c - w0 * c0\<bar> \<le> dw + dc"
proof -
  have "w * c - w0 * c0 = (w - w0) * c + w0 * (c - c0)" by (simp add: algebra_simps)
  then have "\<bar>w * c - w0 * c0\<bar> \<le> \<bar>(w - w0) * c\<bar> + \<bar>w0 * (c - c0)\<bar>" by simp
  also have "\<bar>(w - w0) * c\<bar> = \<bar>w - w0\<bar> * c" using assms(3) by (simp add: abs_mult)
  also have "\<bar>w0 * (c - c0)\<bar> = w0 * \<bar>c - c0\<bar>" using assms(5) by (simp add: abs_mult)
  finally have "\<bar>w * c - w0 * c0\<bar> \<le> \<bar>w - w0\<bar> * c + w0 * \<bar>c - c0\<bar>" .
  moreover have "\<bar>w - w0\<bar> * c \<le> \<bar>w - w0\<bar> * 1" using assms(4) by (intro mult_left_mono) simp_all
  moreover have "w0 * \<bar>c - c0\<bar> \<le> 1 * \<bar>c - c0\<bar>" using assms(6) by (intro mult_right_mono) simp_all
  ultimately show ?thesis using assms(1,2) by linarith
qed

lemma ratio_close:
  assumes "0 \<le> a" "0 < d"
  shows "\<bar>min (js_div (binary64 a) d) 1 - min (a / d) 1\<bar> \<le> 5 * unit_roundoff"
proof -
  let ?u = unit_roundoff
  define x where "x = a / d"
  define x1 where "x1 = binary64 a / d"
  define x2 where "x2 = binary64 x1"
  note u = unit_roundoff_pos unit_roundoff_small
  have x: "0 \<le> x" using assms by (simp add: x_def)
  have x1: "0 \<le> x1" using assms binary64_nonneg [of a] by (simp add: x1_def)
  have "\<bar>binary64 a - a\<bar> \<le> a * ?u"
    using binary64_error [of a] assms(1) by (simp add: unit_roundoff_def)
  then have "\<bar>binary64 a - a\<bar> / d \<le> a * ?u / d" using assms(2) by (simp add: divide_right_mono)
  moreover have "\<bar>binary64 a - a\<bar> / d = \<bar>x1 - x\<bar>"
    using assms(2) by (simp add: x_def x1_def diff_divide_distrib [symmetric])
  ultimately have e1: "\<bar>x1 - x\<bar> \<le> x * ?u" by (simp add: x_def)
  have e2: "\<bar>x2 - x1\<bar> \<le> x1 * ?u"
    using binary64_error [of x1] x1 by (simp add: unit_roundoff_def x2_def)
  have "\<bar>min x2 1 - min x 1\<bar> \<le> 5 * ?u"
  proof (cases "x \<le> 2")
    case True
    then have a: "x * ?u \<le> 2 * ?u" using u(1) by (intro mult_right_mono) simp_all
    with e1 u have "x1 \<le> 3" using True by linarith
    then have b: "x1 * ?u \<le> 3 * ?u" using u(1) by (intro mult_right_mono) simp_all
    from e1 e2 a b have "\<bar>x2 - x\<bar> \<le> 5 * ?u" by linarith
    then show ?thesis by linarith
  next
    case False
    have "x * ?u \<le> x * (1 / 2)" using x u(3) by (intro mult_left_mono) simp_all
    then have "x * ?u \<le> x / 2" by simp
    with e1 False have "1 \<le> x1" by linarith
    then have "binary64 1 \<le> x2" unfolding x2_def by (rule binary64_mono)
    then have "1 \<le> x2" by (simp add: binary64_int_small)
    with False u(1) show ?thesis by simp
  qed
  then show ?thesis by (simp add: js_div_def x_def x1_def x2_def)
qed

lemma binary64_half: "binary64 (1 / 2) = 1 / 2"
  using binary64_int_small(7) by simp

lemma half_close:
  assumes "0 \<le> t" "t \<le> 1"
  shows "\<bar>js_mul (binary64 0.5) (binary64 t) - 0.5 * t\<bar> \<le> unit_roundoff \<and>
         0 \<le> js_mul (binary64 0.5) (binary64 t) \<and> js_mul (binary64 0.5) (binary64 t) \<le> 0.5"
proof -
  let ?u = unit_roundoff
  from binary64_unit [OF assms] have r: "0 \<le> binary64 t" "binary64 t \<le> 1" by simp_all
  have "\<bar>binary64 t - t\<bar> \<le> 0 + 1 * ?u"
    using assms by (intro binary64_close) simp_all
  then have "\<bar>0.5 * binary64 t - 0.5 * t\<bar> \<le> 0.5 * ?u" by linarith
  moreover have "\<bar>0.5 * binary64 t\<bar> \<le> 0.5" using r by simp
  ultimately have "\<bar>binary64 (0.5 * binary64 t) - 0.5 * t\<bar> \<le> 0.5 * ?u + 0.5 * ?u"
    by (rule binary64_close)
  then have e: "\<bar>js_mul (binary64 0.5) (binary64 t) - 0.5 * t\<bar> \<le> ?u"
    by (simp add: js_mul_def binary64_half)
  have "0 \<le> 0.5 * binary64 t" "0.5 * binary64 t \<le> 0.5" using r by simp_all
  from binary64_range [OF binary64_zero binary64_int_small(7) this]
  have "0 \<le> js_mul (binary64 0.5) (binary64 t) \<and> js_mul (binary64 0.5) (binary64 t) \<le> 0.5"
    by (simp add: js_mul_def binary64_half)
  with e show ?thesis by simp
qed

lemma weight_close:
  assumes "0 \<le> w0" "w0 \<le> 1" "\<bar>c - c0\<bar> \<le> k * unit_roundoff" "0 \<le> c" "c \<le> 1"
  shows "\<bar>js_mul (binary64 w0) c - w0 * c0\<bar> \<le> (k + 2) * unit_roundoff \<and>
         0 \<le> js_mul (binary64 w0) c \<and> js_mul (binary64 w0) c \<le> 1"
proof -
  let ?u = unit_roundoff
  from binary64_unit [OF assms(1,2)] have w: "0 \<le> binary64 w0" "binary64 w0 \<le> 1" by simp_all
  have "\<bar>binary64 w0 - w0\<bar> \<le> 0 + 1 * ?u" using assms(1,2) by (intro binary64_close) simp_all
  then have "\<bar>binary64 w0 - w0\<bar> \<le> ?u" by simp
  from product_close [OF this assms(3,4,5,1,2)]
  have p: "\<bar>binary64 w0 * c - w0 * c0\<bar> \<le> ?u + k * ?u" .
  have r: "0 \<le> binary64 w0 * c" "binary64 w0 * c \<le> 1"
    using w assms(4,5) by (simp_all add: mult_le_one)
  then have "\<bar>binary64 w0 * c\<bar> \<le> 1" by simp
  from binary64_close [OF p this]
  have "\<bar>js_mul (binary64 w0) c - w0 * c0\<bar> \<le> (k + 2) * ?u"
    by (simp add: js_mul_def algebra_simps)
  moreover from binary64_unit [OF r]
  have "0 \<le> js_mul (binary64 w0) c \<and> js_mul (binary64 w0) c \<le> 1" by (simp add: js_mul_def)
  ultimately show ?thesis by simp
qed

lemma clamp01_min_max: "min (max x 0) 1 = clamp01 x"
  by (simp add: clamp01_def min_def max_def)

lemma complexity_close:
  assumes "0 \<le> a" "0 \<le> l" "0 \<le> t" "t \<le> 1" "0 \<le> g" "g \<le> 1"
  shows "\<bar>complexity (binary64 a) (binary64 l) (binary64 t) (binary64 g)
          - clamp01 (0.4 * min (a / 40) 1 + 0.3 * min (l / 4000) 1 + 0.3 * (0.5 * t + 0.5 * g))\<bar>
         \<le> 24 * unit_roundoff"
proof -
  let ?u = unit_roundoff
  define Cf where "Cf = min (js_div (binary64 a) 40) 1"
  define Cl where "Cl = min (js_div (binary64 l) 4000) 1"
  define ht where "ht = js_mul (binary64 0.5) (binary64 t)"
  define hg where "hg = js_mul (binary64 0.5) (binary64 g)"
  define Ct where "Ct = js_add ht hg"
  define p1 where "p1 = js_mul (binary64 0.4) Cf"
  define p2 where "p2 = js_mul (binary64 0.3) Cl"
  define p3 where "p3 = js_mul (binary64 0.3) Ct"
  define q1 where "q1 = js_add p1 p2"
  define S where "S = js_add q1 p3"
  have c: "complexity (binary64 a) (binary64 l) (binary64 t) (binary64 g) = min (max S 0) 1"
    by (simp only: complexity_def S_def q1_def p1_def p2_def p3_def Ct_def ht_def hg_def Cf_def Cl_def)
  have cf: "\<bar>Cf - min (a / 40) 1\<bar> \<le> 5 * ?u" unfolding Cf_def using assms(1) by (intro ratio_close) simp_all
  have cl: "\<bar>Cl - min (l / 4000) 1\<bar> \<le> 5 * ?u" unfolding Cl_def using assms(2) by (intro ratio_close) simp_all
  have "0 \<le> js_div (binary64 a) 40" unfolding js_div_def
    using binary64_nonneg [OF assms(1)] by (intro binary64_nonneg) simp
  then have cfr: "0 \<le> Cf" "Cf \<le> 1" by (simp_all add: Cf_def)
  have "0 \<le> js_div (binary64 l) 4000" unfolding js_div_def
    using binary64_nonneg [OF assms(2)] by (intro binary64_nonneg) simp
  then have clr: "0 \<le> Cl" "Cl \<le> 1" by (simp_all add: Cl_def)
  have w4: "(0::real) \<le> 0.4" "(0.4::real) \<le> 1" and w3: "(0::real) \<le> 0.3" "(0.3::real) \<le> 1" by simp_all
  from weight_close [OF w4 cf cfr]
  have p1: "\<bar>p1 - 0.4 * min (a / 40) 1\<bar> \<le> 7 * ?u" "0 \<le> p1" "p1 \<le> 1" by (simp_all add: p1_def)
  from weight_close [OF w3 cl clr]
  have p2: "\<bar>p2 - 0.3 * min (l / 4000) 1\<bar> \<le> 7 * ?u" "0 \<le> p2" "p2 \<le> 1" by (simp_all add: p2_def)
  from half_close [OF assms(3,4)]
  have ht: "\<bar>ht - 0.5 * t\<bar> \<le> ?u" "0 \<le> ht" "ht \<le> 0.5" by (simp_all add: ht_def)
  from half_close [OF assms(5,6)]
  have hg: "\<bar>hg - 0.5 * g\<bar> \<le> ?u" "0 \<le> hg" "hg \<le> 0.5" by (simp_all add: hg_def)
  have "\<bar>(ht + hg) - (0.5 * t + 0.5 * g)\<bar> \<le> 2 * ?u" using ht(1) hg(1) by linarith
  moreover have "\<bar>ht + hg\<bar> \<le> 1" using ht(2,3) hg(2,3) by linarith
  ultimately have "\<bar>binary64 (ht + hg) - (0.5 * t + 0.5 * g)\<bar> \<le> 2 * ?u + 1 * ?u"
    by (rule binary64_close)
  then have ct: "\<bar>Ct - (0.5 * t + 0.5 * g)\<bar> \<le> 3 * ?u" by (simp add: Ct_def js_add_def)
  have "0 \<le> ht + hg" "ht + hg \<le> 1" using ht(2,3) hg(2,3) by linarith+
  from binary64_unit [OF this] have ctr: "0 \<le> Ct" "Ct \<le> 1" by (simp_all add: Ct_def js_add_def)
  from weight_close [OF w3 ct ctr]
  have p3: "\<bar>p3 - 0.3 * (0.5 * t + 0.5 * g)\<bar> \<le> 5 * ?u" "0 \<le> p3" "p3 \<le> 1" by (simp_all add: p3_def)
  have "\<bar>(p1 + p2) - (0.4 * min (a / 40) 1 + 0.3 * min (l / 4000) 1)\<bar> \<le> 14 * ?u"
    using p1(1) p2(1) by linarith
  moreover have "\<bar>p1 + p2\<bar> \<le> 2" using p1(2,3) p2(2,3) by linarith
  ultimately have "\<bar>binary64 (p1 + p2) - (0.4 * min (a / 40) 1 + 0.3 * min (l / 4000) 1)\<bar>
      \<le> 14 * ?u + 2 * ?u"
    by (rule binary64_close)
  then have q1: "\<bar>q1 - (0.4 * min (a / 40) 1 + 0.3 * min (l / 4000) 1)\<bar> \<le> 16 * ?u"
    by (simp add: q1_def js_add_def)
  have "0 \<le> p1 + p2" "p1 + p2 \<le> 2" using p1(2,3) p2(2,3) by linarith+
  from binary64_range [OF binary64_zero binary64_int_small(2) this]
  have q1r: "0 \<le> q1" "q1 \<le> 2" by (simp_all add: q1_def js_add_def)
  have "\<bar>(q1 + p3) - (0.4 * min (a / 40) 1 + 0.3 * min (l / 4000) 1 + 0.3 * (0.5 * t + 0.5 * g))\<bar>
      \<le> 21 * ?u"
    using q1 p3(1) by linarith
  moreover have "\<bar>q1 + p3\<bar> \<le> 3" using q1r p3(2,3) by linarith
  ultimately have
    "\<bar>binary64 (q1 + p3) - (0.4 * min (a / 40) 1 + 0.3 * min (l / 4000) 1 + 0.3 * (0.5 * t + 0.5 * g))\<bar>
      \<le> 21 * ?u + 3 * ?u"
    by (rule binary64_close)
  then have "\<bar>S - (0.4 * min (a / 40) 1 + 0.3 * min (l / 4000) 1 + 0.3 * (0.5 * t + 0.5 * g))\<bar>
      \<le> 24 * ?u"
    by (simp add: S_def js_add_def)
  then show ?thesis unfolding c clamp01_min_max [symmetric] by linarith
qed

lemma floor_close:
  fixes x y :: real
  assumes "\<bar>x - y\<bar> < 1"
  shows "\<bar>\<lfloor>x\<rfloor> - \<lfloor>y\<rfloor>\<bar> \<le> 1"
  using assms by linarith

lemma batch_close:
  assumes "0 \<le> a" "0 \<le> l" "0 \<le> t" "t \<le> 1" "0 \<le> g" "g \<le> 1"
  shows "\<bar>batch_from_metrics (binary64 a) (binary64 l) (binary64 t) (binary64 g)
          - \<lfloor>100 - (100 - 5) *
               clamp01 (0.4 * min (a / 40) 1 + 0.3 * min (l / 4000) 1 + 0.3 * (0.5 * t + 0.5 * g))\<rfloor>\<bar>
         \<le> 1"
proof -
  let ?u = unit_roundoff
  define c where "c = complexity (binary64 a) (binary64 l) (binary64 t) (binary64 g)"
  define c0 where "c0 = clamp01 (0.4 * min (a / 40) 1 + 0.3 * min (l / 4000) 1 + 0.3 * (0.5 * t + 0.5 * g))"
  have cc: "\<bar>c - c0\<bar> \<le> 24 * ?u" unfolding c_def c0_def using assms by (rule complexity_close)
  have cr: "0 \<le> c" "c \<le> 1" using complexity_range [of "binary64 a" "binary64 l" "binary64 t" "binary64 g"]
    by (simp_all add: c_def)
  have "\<bar>95 * c - 95 * c0\<bar> \<le> 2280 * ?u" using cc by linarith
  moreover have "\<bar>95 * c\<bar> \<le> 95" using cr by linarith
  ultimately have "\<bar>binary64 (95 * c) - 95 * c0\<bar> \<le> 2280 * ?u + 95 * ?u" by (rule binary64_close)
  then have r: "\<bar>js_mul 95 c - 95 * c0\<bar> \<le> 2375 * ?u" by (simp add: js_mul_def)
  have "0 \<le> 95 * c" "95 * c \<le> 95" using cr by linarith+
  from binary64_range [OF binary64_zero binary64_int_small(5) this]
  have rr: "0 \<le> js_mul 95 c" "js_mul 95 c \<le> 95" by (simp_all add: js_mul_def)
  have "\<bar>(100 - js_mul 95 c) - (100 - 95 * c0)\<bar> \<le> 2375 * ?u" using r by linarith
  moreover have "\<bar>100 - js_mul 95 c\<bar> \<le> 100" using rr by linarith
  ultimately have "\<bar>binary64 (100 - js_mul 95 c) - (100 - 95 * c0)\<bar> \<le> 2375 * ?u + 100 * ?u"
    by (rule binary64_close)
  then have "\<bar>js_sub 100 (js_mul 95 c) - (100 - 95 * c0)\<bar> < 1"
    using unit_roundoff_small(1) unit_roundoff_pos by (simp add: js_sub_def)
  then have "\<bar>\<lfloor>js_sub 100 (js_mul 95 c)\<rfloor> - \<lfloor>100 - 95 * c0\<rfloor>\<bar> \<le> 1" by (rule floor_close)
  moreover have "batch_from_metrics (binary64 a) (binary64 l) (binary64 t) (binary64 g)
      = \<lfloor>js_sub 100 (js_mul 95 c)\<rfloor>"
    unfolding c_def using batch_from_metrics_floor by blast
  ultimately show ?thesis by (simp add: c0_def)
qed


section \<open>Adaptive batch sizer: proofs\<close>

lemma count_cell_totalFields: "totalFields (count_cell v t) = totalFields t"
  by (cases v) (simp_all add: Let_def)
lemma count_cell_totalRowChars: "totalRowChars (count_cell v t) = totalRowChars t"
  by (cases v) (simp_all add: Let_def)
lemma count_cell_totalCells: "totalCells (count_cell v t) = totalCells t + (if nullish v then 0 else 1)"
  by (cases v) (simp_all add: Let_def nullish_def)
lemma count_cell_textCells: "textCells (count_cell v t) = textCells t + (if spec_is_text v then 1 else 0)"
  by (cases v) (simp_all add: Let_def spec_is_text_def)
lemma count_cell_longTextCells:
  "longTextCells (count_cell v t) = longTextCells t + (if spec_is_long_text v then 1 else 0)"
  by (cases v) (simp_all add: Let_def spec_is_long_text_def)

lemma text_not_nullish: "spec_is_text v \<Longrightarrow> \<not> nullish v"
  by (cases v) (simp_all add: spec_is_text_def nullish_def)
lemma long_text_not_nullish: "spec_is_long_text v \<Longrightarrow> \<not> nullish v"
  by (cases v) (simp_all add: spec_is_long_text_def nullish_def)

lemma scan_cells_totalFields: "totalFields (scan_cells row keys t) = totalFields t"
  by (induction keys arbitrary: t) (simp_all add: count_cell_totalFields)
lemma scan_cells_totalRowChars: "totalRowChars (scan_cells row keys t) = totalRowChars t"
  by (induction keys arbitrary: t) (simp_all add: count_cell_totalRowChars)
lemma scan_cells_totalCells:
  "totalCells (scan_cells row keys t) =
     totalCells t + length (filter (\<lambda>v. \<not> nullish v) (map (get_prop row) keys))"
  by (induction keys arbitrary: t) (simp_all add: count_cell_totalCells)
lemma scan_cells_textCells:
  "textCells (scan_cells row keys t) =
     textCells t + length (filter spec_is_text (filter (\<lambda>v. \<not> nullish v) (map (get_prop row) keys)))"
  by (induction keys arbitrary: t) (auto simp add: count_cell_textCells text_not_nullish)
lemma scan_cells_longTextCells:
  "longTextCells (scan_cells row keys t) =
     longTextCells t + length (filter spec_is_long_text (filter (\<lambda>v. \<not> nullish v) (map (get_prop row) keys)))"
  by (induction keys arbitrary: t) (auto simp add: count_cell_longTextCells long_text_not_nullish)

lemma scan_rows_totalFields:
  "totalFields (scan_rows e rows t) = totalFields t + sum_list (map spec_field_count rows)"
  by (induction rows arbitrary: t)
     (simp_all add: Let_def spec_field_count_def scan_cells_totalFields)
lemma spec_value_text_eq:
  "spec_value_text e v = js_String (number_to_string e) (if nullish v then JStr [] else v)"
  by (cases v) (simp_all add: nullish_def)

lemma spec_serialized_eq: "spec_serialized e row = row_string e row"
  by (simp add: spec_serialized_def row_string_def spec_value_text_eq comp_def split: option.split)

lemma scan_rows_totalRowChars:
  "totalRowChars (scan_rows e rows t) = totalRowChars t + sum_list (map (spec_row_len e) rows)"
  by (induction rows arbitrary: t)
     (simp_all add: Let_def spec_row_len_def spec_serialized_eq scan_cells_totalRowChars)
lemma scan_rows_totalCells:
  "totalCells (scan_rows e rows t) = totalCells t + length (concat (map spec_cells rows))"
  by (induction rows arbitrary: t)
     (simp_all add: Let_def spec_cells_def scan_cells_totalCells)
lemma scan_rows_textCells:
  "textCells (scan_rows e rows t) = textCells t + length (filter spec_is_text (concat (map spec_cells rows)))"
  by (induction rows arbitrary: t)
     (simp_all add: Let_def spec_cells_def scan_cells_textCells)
lemma scan_rows_longTextCells:
  "longTextCells (scan_rows e rows t) =
     longTextCells t + length (filter spec_is_long_text (concat (map spec_cells rows)))"
  by (induction rows arbitrary: t)
     (simp_all add: Let_def spec_cells_def scan_cells_longTextCells)


lemma sample_count_zero: "min (length data) (20::nat) = 0 \<longleftrightarrow> data = []"
  by (cases data) (simp_all add: min_def)

lemma sample_metrics:
  assumes "data \<noteq> []"
  shows "real (totalFields (scan_rows e (spec_sample data) zero_totals)) / real (min (length data) 20)
           = spec_avgFields data"
    and "real (totalRowChars (scan_rows e (spec_sample data) zero_totals)) / real (min (length data) 20)
           = spec_avgRowLen e data"
    and "(if totalCells (scan_rows e (spec_sample data) zero_totals) > 0
          then js_div (real (textCells (scan_rows e (spec_sample data) zero_totals)))
                      (real (totalCells (scan_rows e (spec_sample data) zero_totals)))
          else 0) = binary64 (spec_ratio spec_is_text data)"
    and "(if totalCells (scan_rows e (spec_sample data) zero_totals) > 0
          then js_div (real (longTextCells (scan_rows e (spec_sample data) zero_totals)))
                      (real (totalCells (scan_rows e (spec_sample data) zero_totals)))
          else 0) = binary64 (spec_ratio spec_is_long_text data)"
proof -
  have len: "length (spec_sample data) = min (length data) 20"
    by (simp add: spec_sample_def)
  show "real (totalFields (scan_rows e (spec_sample data) zero_totals)) / real (min (length data) 20)
           = spec_avgFields data"
    by (simp add: scan_rows_totalFields zero_totals_def spec_avgFields_def len)
  show "real (totalRowChars (scan_rows e (spec_sample data) zero_totals)) / real (min (length data) 20)
           = spec_avgRowLen e data"
    by (simp add: scan_rows_totalRowChars zero_totals_def spec_avgRowLen_def len)
  show "(if totalCells (scan_rows e (spec_sample data) zero_totals) > 0
          then js_div (real (textCells (scan_rows e (spec_sample data) zero_totals)))
                      (real (totalCells (scan_rows e (spec_sample data) zero_totals)))
          else 0) = binary64 (spec_ratio spec_is_text data)"
    by (simp add: scan_rows_totalCells scan_rows_textCells zero_totals_def spec_ratio_def Let_def
        js_div_def binary64_zero)
  show "(if totalCells (scan_rows e (spec_sample data) zero_totals) > 0
          then js_div (real (longTextCells (scan_rows e (spec_sample data) zero_totals)))
                      (real (totalCells (scan_rows e (spec_sample data) zero_totals)))
          else 0) = binary64 (spec_ratio spec_is_long_text data)"
    by (simp add: scan_rows_totalCells scan_rows_longTextCells zero_totals_def spec_ratio_def Let_def
        js_div_def binary64_zero)
qed

lemma calc_totals:
  assumes "data \<noteq> []"
  shows "calculateAdaptiveBatchSize e data =
      (let t = scan_rows e (spec_sample data) zero_totals
       in batch_from_metrics
            (js_div (real (totalFields t)) (real (min (length data) 20)))
            (js_div (real (totalRowChars t)) (real (min (length data) 20)))
            (if totalCells t > 0 then js_div (real (textCells t)) (real (totalCells t)) else 0)
            (if totalCells t > 0 then js_div (real (longTextCells t)) (real (totalCells t)) else 0))"
  using assms
  by (simp add: calculateAdaptiveBatchSize_def Let_def spec_sample_def sample_count_zero
      del: min_less_iff_conj min_0L min_0R)

lemma calc_nonempty:
  assumes "data \<noteq> []"
  shows "calculateAdaptiveBatchSize e data =
     batch_from_metrics (binary64 (spec_avgFields data)) (binary64 (spec_avgRowLen e data))
       (binary64 (spec_ratio spec_is_text data)) (binary64 (spec_ratio spec_is_long_text data))"
  unfolding calc_totals [OF assms] Let_def sample_metrics(3,4) [OF assms]
  unfolding js_div_def sample_metrics(1,2) [OF assms] ..

lemma batch_size_bounds:
  "5 \<le> calculateAdaptiveBatchSize e data \<and> calculateAdaptiveBatchSize e data \<le> 100"
proof (cases "data = []")
  case True
  then show ?thesis by (simp add: calculateAdaptiveBatchSize_def)
next
  case False
  let ?b = "js_sub 100 (js_mul 95 (complexity (binary64 (spec_avgFields data))
      (binary64 (spec_avgRowLen e data)) (binary64 (spec_ratio spec_is_text data))
      (binary64 (spec_ratio spec_is_long_text data))))"
  from batch_from_metrics_floor [of "binary64 (spec_avgFields data)" "binary64 (spec_avgRowLen e data)"
      "binary64 (spec_ratio spec_is_text data)" "binary64 (spec_ratio spec_is_long_text data)"]
  have f: "calculateAdaptiveBatchSize e data = \<lfloor>?b\<rfloor>" and b: "5 \<le> ?b" "?b \<le> 100"
    unfolding calc_nonempty [OF False] by simp_all
  have "5 \<le> \<lfloor>?b\<rfloor>" using b(1) by (simp add: le_floor_iff)
  moreover have "\<lfloor>?b\<rfloor> \<le> 100" using floor_mono [OF b(2)] by simp
  ultimately show ?thesis unfolding f by simp
qed

lemma spec_sample_nonempty: "data \<noteq> [] \<Longrightarrow> spec_sample data \<noteq> []"
  by (cases data) (simp_all add: spec_sample_def)

lemma spec_metrics_range:
  assumes "data \<noteq> []"
  shows "0 \<le> spec_avgFields data" "0 \<le> spec_avgRowLen e data"
    "0 \<le> spec_ratio P data" "spec_ratio P data \<le> 1"
proof -
  show "0 \<le> spec_avgFields data" by (simp add: spec_avgFields_def)
  show "0 \<le> spec_avgRowLen e data" by (simp add: spec_avgRowLen_def)
  show "0 \<le> spec_ratio P data" by (simp add: spec_ratio_def Let_def)
  have "real (length (filter P xs)) \<le> real (length xs)" for xs :: "jsval list"
    by (simp add: of_nat_mono)
  then show "spec_ratio P data \<le> 1"
    by (simp add: spec_ratio_def Let_def divide_le_eq_1)
qed

lemma spec_complexity_binary64_eq:
  "spec_complexity_binary64 e data =
     complexity (binary64 (spec_avgFields data)) (binary64 (spec_avgRowLen e data))
       (binary64 (spec_ratio spec_is_text data)) (binary64 (spec_ratio spec_is_long_text data))"
  unfolding spec_complexity_binary64_def complexity_def clamp01_min_max ..

text \<open>
  C4, as the specification states it, fails: on a single row of 30 fields, 14 of them
  strings, whose serialization has 400 characters, the exact value of
  \<open>100 - (100 - 5) * C\<close> is 62, and the arithmetic of lines 172 to 199 returns 61.
\<close>

theorem batch_size_counterexample:
  "calculateAdaptiveBatchSize json_js [wide_row] = 61 \<and>
   \<lfloor>100 - (100 - 5) * spec_complexity json_js [wide_row]\<rfloor> = 62"
proof -
  have t: "scan_rows json_js [wide_row] zero_totals =
      \<lparr>totalFields = 30, totalRowChars = 400, totalCells = 30, textCells = 14, longTextCells = 0\<rparr>"
    by (simp add: wide_row_def json_js_def flat_stringify_def json_member_def json_quote_def
        is_high_surrogate_def is_low_surrogate_def row_string_def object_keys_def zero_totals_def
        Let_def asc_def)
  have s: "spec_sample [wide_row] = [wide_row]" by (simp add: spec_sample_def)
  have n: "[wide_row] \<noteq> []" by simp
  note m = sample_metrics [OF n, of json_js, unfolded s t]
  have a: "spec_avgFields [wide_row] = 30" using m(1) by simp
  have l: "spec_avgRowLen json_js [wide_row] = 400" using m(2) by simp
  have cells: "length (spec_cells wide_row) = 30"
    using scan_rows_totalCells [of json_js "[wide_row]" zero_totals, unfolded t]
    by (simp add: zero_totals_def)
  have texts: "length (filter spec_is_text (spec_cells wide_row)) = 14"
    using scan_rows_textCells [of json_js "[wide_row]" zero_totals, unfolded t]
    by (simp add: zero_totals_def)
  have longs: "length (filter spec_is_long_text (spec_cells wide_row)) = 0"
    using scan_rows_longTextCells [of json_js "[wide_row]" zero_totals, unfolded t]
    by (simp add: zero_totals_def)
  have ne: "spec_cells wide_row \<noteq> []" using cells by auto
  have x: "spec_ratio spec_is_text [wide_row] = 14 / 30"
    by (simp add: spec_ratio_def s Let_def ne cells texts)
  have g: "spec_ratio spec_is_long_text [wide_row] = 0"
    using longs by (simp add: spec_ratio_def s Let_def ne cells)
  have c1: "binary64 (30) = 30"
    by (rule binary64_cert [where e = "4" and m = 8444249301319680]) (simp_all add: pow2_def)
  have c2: "binary64 (400) = 400"
    by (rule binary64_cert [where e = "8" and m = 7036874417766400]) (simp_all add: pow2_def)
  have c3: "binary64 (7 / 15) = 4203359652212463 / 9007199254740992"
    by (rule binary64_cert [where e = "-2" and m = 8406719304424926]) (simp_all add: pow2_def)
  have c4: "binary64 (3 / 4) = 3 / 4"
    by (rule binary64_cert [where e = "-1" and m = 6755399441055744]) (simp_all add: pow2_def)
  have c5: "binary64 (1 / 10) = 3602879701896397 / 36028797018963968"
    by (rule binary64_cert [where e = "-4" and m = 7205759403792794]) (simp_all add: pow2_def)
  have c6: "binary64 (1 / 2) = 1 / 2"
    by (rule binary64_cert [where e = "-1" and m = 4503599627370496]) (simp_all add: pow2_def)
  have c7: "binary64 (4203359652212463 / 18014398509481984) = 4203359652212463 / 18014398509481984"
    by (rule binary64_cert [where e = "-3" and m = 8406719304424926]) (simp_all add: pow2_def)
  have c8: "binary64 (2 / 5) = 3602879701896397 / 9007199254740992"
    by (rule binary64_cert [where e = "-2" and m = 7205759403792794]) (simp_all add: pow2_def)
  have c9: "binary64 (3 / 10) = 5404319552844595 / 18014398509481984"
    by (rule binary64_cert [where e = "-2" and m = 5404319552844595]) (simp_all add: pow2_def)
  have c10: "binary64 (10808639105689191 / 36028797018963968) = 1351079888211149 / 4503599627370496"
    by (rule binary64_cert [where e = "-2" and m = 5404319552844596]) (simp_all add: pow2_def)
  have c11: "binary64 (19471113219505603967277331424215 / 649037107316853453566312041152512) = 1080863910568919 / 36028797018963968"
    by (rule binary64_cert [where e = "-6" and m = 8646911284551352]) (simp_all add: pow2_def)
  have c12: "binary64 (11889503016258111 / 36028797018963968) = 185773484629033 / 562949953421312"
    by (rule binary64_cert [where e = "-2" and m = 5944751508129056]) (simp_all add: pow2_def)
  have c13: "binary64 (22716298756089870394436961187485 / 324518553658426726783156020576256) = 5044031582654955 / 72057594037927936"
    by (rule binary64_cert [where e = "-4" and m = 5044031582654955]) (simp_all add: pow2_def)
  have c14: "binary64 (28823037615171179 / 72057594037927936) = 7205759403792795 / 18014398509481984"
    by (rule binary64_cert [where e = "-2" and m = 7205759403792795]) (simp_all add: pow2_def)
  have c15: "binary64 (95) = 95"
    by (rule binary64_cert [where e = "6" and m = 6685030696878080]) (simp_all add: pow2_def)
  have c16: "binary64 (684547143360315525 / 18014398509481984) = 5348024557502465 / 140737488355328"
    by (rule binary64_cert [where e = "5" and m = 5348024557502465]) (simp_all add: pow2_def)
  have c17: "binary64 (8725724278030335 / 140737488355328) = 8725724278030335 / 140737488355328"
    by (rule binary64_cert [where e = "5" and m = 8725724278030335]) (simp_all add: pow2_def)
  have code: "calculateAdaptiveBatchSize json_js [wide_row] = 61"
    unfolding calc_nonempty [OF n] a l x g
    by (simp add: batch_from_metrics_def Let_def js_add_def js_sub_def js_mul_def js_div_def
        binary64_zero c1 c2 c3 c4 c5 c6 c7 c8 c9 c10 c11 c12 c13 c14 c15 c16 c17)
  have spec: "\<lfloor>100 - (100 - 5) * spec_complexity json_js [wide_row]\<rfloor> = 62"
    by (simp add: spec_complexity_def a l x g clamp01_def)
  from code spec show ?thesis ..
qed

text \<open>
  C4, amended. For every result set the batch size is an integer between 5 and 100, and it
  is 10 for the empty set, which is returned before any row is sampled. Otherwise it is
  the floor of \<open>100 - (100 - 5) * C\<close> for the composite complexity \<open>C\<close> of section 4.6 taken
  over the first \<open>min rowCount 20\<close> rows, with the four metrics and every product, sum,
  quotient and difference rounded to the nearest binary64 number, and it differs by at most
  one from the floor of the same formula in exact arithmetic.
\<close>

theorem batch_size_range_and_formula:
  "5 \<le> calculateAdaptiveBatchSize e data \<and> calculateAdaptiveBatchSize e data \<le> 100 \<and>
   (data = [] \<longrightarrow> calculateAdaptiveBatchSize e data = 10) \<and>
   (data \<noteq> [] \<longrightarrow>
      calculateAdaptiveBatchSize e data =
        \<lfloor>js_sub 100 (js_mul (js_sub 100 5) (spec_complexity_binary64 e data))\<rfloor> \<and>
      \<bar>calculateAdaptiveBatchSize e data - \<lfloor>100 - (100 - 5) * spec_complexity e data\<rfloor>\<bar> \<le> 1)"
proof (cases "data = []")
  case True
  then show ?thesis by (simp add: calculateAdaptiveBatchSize_def)
next
  case False
  note r = spec_metrics_range [OF False]
  have c: "\<bar>calculateAdaptiveBatchSize e data - \<lfloor>100 - (100 - 5) * spec_complexity e data\<rfloor>\<bar> \<le> 1"
    unfolding calc_nonempty [OF False] spec_complexity_def
    by (rule batch_close) (rule r)+
  have "js_sub 100 5 = 95" by (simp add: js_sub_def binary64_int_small)
  then have f: "calculateAdaptiveBatchSize e data =
      \<lfloor>js_sub 100 (js_mul (js_sub 100 5) (spec_complexity_binary64 e data))\<rfloor>"
    unfolding calc_nonempty [OF False] spec_complexity_binary64_eq
    using batch_from_metrics_floor by simp
  show ?thesis
  proof (intro conjI impI)
    show "5 \<le> calculateAdaptiveBatchSize e data" "calculateAdaptiveBatchSize e data \<le> 100"
      using batch_size_bounds [of e data] by blast+
    show "calculateAdaptiveBatchSize e data = 10" if "data = []"
      using that False by contradiction
    show "calculateAdaptiveBatchSize e data =
        \<lfloor>js_sub 100 (js_mul (js_sub 100 5) (spec_complexity_binary64 e data))\<rfloor>"
      by (rule f)
    show "\<bar>calculateAdaptiveBatchSize e data - \<lfloor>100 - (100 - 5) * spec_complexity e data\<rfloor>\<bar> \<le> 1"
      by (rule c)
  qed
qed

theorem batch_size_range_and_formula_witness:
  "calculateAdaptiveBatchSize json_js [] = 10 \<and>
   [JObj [(asc ''a'', JStr (asc ''x''))]] \<noteq> [] \<and>
   calculateAdaptiveBatchSize json_js [JObj [(asc ''a'', JStr (asc ''x''))]] = 84 \<and>
   \<bar>84 - \<lfloor>100 - (100 - 5) * spec_complexity json_js [JObj [(asc ''a'', JStr (asc ''x''))]]\<rfloor>\<bar> \<le> 1"
proof -
  let ?row = "JObj [(asc ''a'', JStr (asc ''x''))]"
  have t: "scan_rows json_js [?row] zero_totals =
      \<lparr>totalFields = 1, totalRowChars = 9, totalCells = 1, textCells = 1, longTextCells = 0\<rparr>"
    by (simp add: json_js_def flat_stringify_def json_member_def json_quote_def
        is_high_surrogate_def is_low_surrogate_def row_string_def object_keys_def zero_totals_def
        Let_def asc_def)
  have c1: "binary64 (1) = 1"
    by (rule binary64_cert [where e = "0" and m = 4503599627370496]) (simp_all add: pow2_def)
  have c2: "binary64 (9) = 9"
    by (rule binary64_cert [where e = "3" and m = 5066549580791808]) (simp_all add: pow2_def)
  have c3: "binary64 (1 / 40) = 3602879701896397 / 144115188075855872"
    by (rule binary64_cert [where e = "-6" and m = 7205759403792794]) (simp_all add: pow2_def)
  have c4: "binary64 (9 / 4000) = 5188146770730811 / 2305843009213693952"
    by (rule binary64_cert [where e = "-9" and m = 5188146770730811]) (simp_all add: pow2_def)
  have c5: "binary64 (1 / 2) = 1 / 2"
    by (rule binary64_cert [where e = "-1" and m = 4503599627370496]) (simp_all add: pow2_def)
  have c6: "binary64 (2 / 5) = 3602879701896397 / 9007199254740992"
    by (rule binary64_cert [where e = "-2" and m = 7205759403792794]) (simp_all add: pow2_def)
  have c7: "binary64 (3 / 10) = 5404319552844595 / 18014398509481984"
    by (rule binary64_cert [where e = "-2" and m = 5404319552844595]) (simp_all add: pow2_def)
  have c8: "binary64 (12980742146337070512478121581609 / 1298074214633706907132624082305024) = 1441151880758559 / 144115188075855872"
    by (rule binary64_cert [where e = "-7" and m = 5764607523034236]) (simp_all add: pow2_def)
  have c9: "binary64 (28038403036088066037942061316545 / 41538374868278621028243970633760768) = 6225776124876973 / 9223372036854775808"
    by (rule binary64_cert [where e = "-11" and m = 6225776124876973]) (simp_all add: pow2_def)
  have c10: "binary64 (98459496493424749 / 9223372036854775808) = 6153718530839047 / 576460752303423488"
    by (rule binary64_cert [where e = "-7" and m = 6153718530839047]) (simp_all add: pow2_def)
  have c11: "binary64 (5404319552844595 / 36028797018963968) = 5404319552844595 / 36028797018963968"
    by (rule binary64_cert [where e = "-3" and m = 5404319552844595]) (simp_all add: pow2_def)
  have c12: "binary64 (92622831376352567 / 576460752303423488) = 5788926961022035 / 36028797018963968"
    by (rule binary64_cert [where e = "-3" and m = 5788926961022035]) (simp_all add: pow2_def)
  have c13: "binary64 (95) = 95"
    by (rule binary64_cert [where e = "6" and m = 6685030696878080]) (simp_all add: pow2_def)
  have c14: "binary64 (549948061297093325 / 36028797018963968) = 8592938457767083 / 562949953421312"
    by (rule binary64_cert [where e = "3" and m = 8592938457767083]) (simp_all add: pow2_def)
  have c15: "binary64 (47702056884364117 / 562949953421312) = 5962757110545515 / 70368744177664"
    by (rule binary64_cert [where e = "6" and m = 5962757110545515]) (simp_all add: pow2_def)
  have n: "[?row] \<noteq> []" by simp
  have s: "spec_sample [?row] = [?row]" by (simp add: spec_sample_def)
  have m: "calculateAdaptiveBatchSize json_js [?row] = batch_from_metrics (js_div 1 1) (js_div 9 1) (js_div 1 1) (js_div 0 1)"
    unfolding calc_totals [OF n] s t by simp
  have v: "calculateAdaptiveBatchSize json_js [?row] = 84"
    unfolding m
    by (simp add: batch_from_metrics_def Let_def js_add_def
        js_sub_def js_mul_def js_div_def binary64_zero c1 c2 c3 c4 c5 c6 c7 c8 c9 c10 c11 c12 c13 c14 c15)
  note b = batch_size_range_and_formula [of json_js "[?row]"]
  note c = b [THEN conjunct2, THEN conjunct2, THEN conjunct2, THEN mp, OF n, THEN conjunct2]
  have z: "calculateAdaptiveBatchSize json_js [] = 10"
    by (rule batch_size_range_and_formula [of json_js "[]", THEN conjunct2, THEN conjunct2,
          THEN conjunct1, THEN mp]) simp
  from z n v c [unfolded v] show ?thesis by (intro conjI)
qed

text \<open>
  C5. The batch size of a non-empty result set is \<open>batch_from_metrics\<close> at its four metrics,
  each rounded to binary64, and \<open>batch_from_metrics\<close> does not increase when one of the
  average field count, the average row length, the text ratio or the long-text ratio
  increases and the other three stay as they are.
\<close>

theorem batch_size_antimono:
  assumes "x \<le> x'"
  shows "(data \<noteq> [] \<longrightarrow>
           calculateAdaptiveBatchSize e data =
             batch_from_metrics (binary64 (spec_avgFields data)) (binary64 (spec_avgRowLen e data))
               (binary64 (spec_ratio spec_is_text data))
               (binary64 (spec_ratio spec_is_long_text data))) \<and>
         batch_from_metrics x' l t g \<le> batch_from_metrics x l t g \<and>
         batch_from_metrics a x' t g \<le> batch_from_metrics a x t g \<and>
         batch_from_metrics a l x' g \<le> batch_from_metrics a l x g \<and>
         batch_from_metrics a l t x' \<le> batch_from_metrics a l t x"
  using assms by (simp add: calc_nonempty batch_from_metrics_mono)

theorem batch_size_antimono_witness:
  "(10::real) \<le> 50 \<and>
   batch_from_metrics 50 200 (1/2) 0 \<le> batch_from_metrics 10 200 (1/2) 0 \<and>
   batch_from_metrics 50 200 (1/2) 0 = 53 \<and> batch_from_metrics 10 200 (1/2) 0 = 81 \<and>
   batch_from_metrics 8 50 (1/2) 0 \<le> batch_from_metrics 8 10 (1/2) 0 \<and>
   batch_from_metrics 8 200 50 0 \<le> batch_from_metrics 8 200 10 0 \<and>
   batch_from_metrics 8 200 (1/2) 50 \<le> batch_from_metrics 8 200 (1/2) 10"
proof -
  have h: "(10::real) \<le> 50" by simp
  note m = batch_size_antimono [OF h, of "[]" undefined 200 "1/2" 0 8]
  have c1: "binary64 (5 / 4) = 5 / 4"
    by (rule binary64_cert [where e = "0" and m = 5629499534213120]) (simp_all add: pow2_def)
  have c2: "binary64 (1 / 20) = 3602879701896397 / 72057594037927936"
    by (rule binary64_cert [where e = "-5" and m = 7205759403792794]) (simp_all add: pow2_def)
  have c3: "binary64 (1 / 2) = 1 / 2"
    by (rule binary64_cert [where e = "-1" and m = 4503599627370496]) (simp_all add: pow2_def)
  have c4: "binary64 (1 / 4) = 1 / 4"
    by (rule binary64_cert [where e = "-2" and m = 4503599627370496]) (simp_all add: pow2_def)
  have c5: "binary64 (2 / 5) = 3602879701896397 / 9007199254740992"
    by (rule binary64_cert [where e = "-2" and m = 7205759403792794]) (simp_all add: pow2_def)
  have c6: "binary64 (3 / 10) = 5404319552844595 / 18014398509481984"
    by (rule binary64_cert [where e = "-2" and m = 5404319552844595]) (simp_all add: pow2_def)
  have c7: "binary64 (3602879701896397 / 9007199254740992) = 3602879701896397 / 9007199254740992"
    by (rule binary64_cert [where e = "-2" and m = 7205759403792794]) (simp_all add: pow2_def)
  have c8: "binary64 (19471113219505603967277331424215 / 1298074214633706907132624082305024) = 1080863910568919 / 72057594037927936"
    by (rule binary64_cert [where e = "-7" and m = 8646911284551352]) (simp_all add: pow2_def)
  have c9: "binary64 (29903901525740095 / 72057594037927936) = 467248461339689 / 1125899906842624"
    by (rule binary64_cert [where e = "-2" and m = 7475975381435024]) (simp_all add: pow2_def)
  have c10: "binary64 (5404319552844595 / 72057594037927936) = 5404319552844595 / 72057594037927936"
    by (rule binary64_cert [where e = "-4" and m = 5404319552844595]) (simp_all add: pow2_def)
  have c11: "binary64 (35308221078584691 / 72057594037927936) = 8827055269646173 / 18014398509481984"
    by (rule binary64_cert [where e = "-2" and m = 8827055269646173]) (simp_all add: pow2_def)
  have c12: "binary64 (95) = 95"
    by (rule binary64_cert [where e = "6" and m = 6685030696878080]) (simp_all add: pow2_def)
  have c13: "binary64 (838570250616386435 / 18014398509481984) = 6551330082940519 / 140737488355328"
    by (rule binary64_cert [where e = "5" and m = 6551330082940519]) (simp_all add: pow2_def)
  have c14: "binary64 (7522418752592281 / 140737488355328) = 7522418752592281 / 140737488355328"
    by (rule binary64_cert [where e = "5" and m = 7522418752592281]) (simp_all add: pow2_def)
  have c15: "binary64 (3602879701896397 / 36028797018963968) = 3602879701896397 / 36028797018963968"
    by (rule binary64_cert [where e = "-4" and m = 7205759403792794]) (simp_all add: pow2_def)
  have c16: "binary64 (8286623314361713 / 72057594037927936) = 8286623314361713 / 72057594037927936"
    by (rule binary64_cert [where e = "-4" and m = 8286623314361713]) (simp_all add: pow2_def)
  have c17: "binary64 (3422735716801577 / 18014398509481984) = 3422735716801577 / 18014398509481984"
    by (rule binary64_cert [where e = "-3" and m = 6845471433603154]) (simp_all add: pow2_def)
  have c18: "binary64 (325159893096149815 / 18014398509481984) = 5080623329627341 / 281474976710656"
    by (rule binary64_cert [where e = "4" and m = 5080623329627341]) (simp_all add: pow2_def)
  have c19: "binary64 (23066874341438259 / 281474976710656) = 5766718585359565 / 70368744177664"
    by (rule binary64_cert [where e = "6" and m = 5766718585359565]) (simp_all add: pow2_def)
  have v1: "batch_from_metrics 50 200 (1/2) 0 = 53"
    by (simp add: batch_from_metrics_def Let_def js_add_def js_sub_def js_mul_def js_div_def
        binary64_zero c1 c2 c3 c4 c5 c6 c7 c8 c9 c10 c11 c12 c13 c14 c15 c16 c17 c18 c19)
  have v2: "batch_from_metrics 10 200 (1/2) 0 = 81"
    by (simp add: batch_from_metrics_def Let_def js_add_def js_sub_def js_mul_def js_div_def
        binary64_zero c1 c2 c3 c4 c5 c6 c7 c8 c9 c10 c11 c12 c13 c14 c15 c16 c17 c18 c19)
  from m have "batch_from_metrics 50 200 (1/2) 0 \<le> batch_from_metrics 10 200 (1/2) 0"
    "batch_from_metrics 8 50 (1/2) 0 \<le> batch_from_metrics 8 10 (1/2) 0"
    "batch_from_metrics 8 200 50 0 \<le> batch_from_metrics 8 200 10 0"
    "batch_from_metrics 8 200 (1/2) 50 \<le> batch_from_metrics 8 200 (1/2) 10"
    by blast+
  with h v1 v2 show ?thesis by (intro conjI)
qed

section \<open>Manual tool-call rescue: proofs\<close>

lemma run_sql_at_fixture:
  \<open>run_sql_at is_quote (asc ''run_sql("SELECT * FROM t_1")'' @ post) = Some (asc ''SELECT * FROM t_1'')\<close>
  by (simp add: run_sql_at_def closes_def str_eval)

lemma no_straddle:
  assumes "p \<noteq> []" and "\<not> starts_with p (asc ''run_sql'')"
  shows "\<not> starts_with (p @ asc ''run_sql'' @ r) (asc ''run_sql'')"
proof (cases "7 \<le> length p")
  case True
  then show ?thesis using assms(2) by (simp add: starts_with_def asc_def)
next
  case False
  moreover from assms(1) have "0 < length p" by simp
  ultimately consider "length p = 1" | "length p = 2" | "length p = 3"
    | "length p = 4" | "length p = 5" | "length p = 6"
    by linarith
  then show ?thesis
  proof cases
    case 1
    then obtain a where "p = [a]"
      by (auto simp add: length_Suc_conv)
    then show ?thesis by (auto simp add: starts_with_def asc_def)
  next
    case 2
    then obtain a b where "p = [a, b]"
      by (auto simp add: numeral_eq_Suc length_Suc_conv)
    then show ?thesis by (auto simp add: starts_with_def asc_def)
  next
    case 3
    then obtain a b c where "p = [a, b, c]"
      by (auto simp add: numeral_eq_Suc length_Suc_conv)
    then show ?thesis by (auto simp add: starts_with_def asc_def)
  next
    case 4
    then obtain a b c d where "p = [a, b, c, d]"
      by (auto simp add: numeral_eq_Suc length_Suc_conv)
    then show ?thesis by (auto simp add: starts_with_def asc_def)
  next
    case 5
    then obtain a b c d f where "p = [a, b, c, d, f]"
      by (auto simp add: numeral_eq_Suc length_Suc_conv)
    then show ?thesis by (auto simp add: starts_with_def asc_def)
  next
    case 6
    then obtain a b c d f g where "p = [a, b, c, d, f, g]"
      by (auto simp add: numeral_eq_Suc length_Suc_conv)
    then show ?thesis by (auto simp add: starts_with_def asc_def)
  qed
qed

lemma run_sql_at_None: "\<not> starts_with s (asc ''run_sql'') \<Longrightarrow> run_sql_at q s = None"
  by (simp add: run_sql_at_def)

lemma search_skips_prefix:
  assumes "\<not> js_includes pre (asc ''run_sql'')"
  shows "regex_search (run_sql_at q) (pre @ asc ''run_sql'' @ r) =
         regex_search (run_sql_at q) (asc ''run_sql'' @ r)"
  using assms
proof (induction pre)
  case Nil
  then show ?case by simp
next
  case (Cons c pre)
  from Cons.prems have a: "\<not> starts_with (c # pre) (asc ''run_sql'')"
    and b: "\<not> js_includes pre (asc ''run_sql'')"
    by simp_all
  have "\<not> starts_with ((c # pre) @ asc ''run_sql'' @ r) (asc ''run_sql'')"
    using a by (intro no_straddle) simp_all
  then have "run_sql_at q (c # pre @ asc ''run_sql'' @ r) = None"
    by (simp add: run_sql_at_None)
  then show ?case using Cons.IH [OF b] by simp
qed

lemma regex_search_hit: "m s = Some x \<Longrightarrow> regex_search m s = Some x"
  by (cases s) simp_all

lemma fixture_split:
  \<open>asc ''run_sql("SELECT * FROM t_1")'' = asc ''run_sql'' @ asc ''("SELECT * FROM t_1")''\<close>
  by (simp add: asc_def)

lemma detect_fixture:
  assumes "\<not> js_includes pre (asc ''run_sql'')"
  shows \<open>detectManualToolCall now (pre @ asc ''run_sql("SELECT * FROM t_1")'' @ post) =
           Some \<lparr>tc_id = Some (asc ''manual-sql-'' @ show_nat now), tc_name = asc ''run_sql'',
                  tc_arguments = asc ''{"query":"SELECT * FROM t_1"}''\<rparr>\<close>
proof -
  have \<open>regex_search (run_sql_at is_quote) (pre @ asc ''run_sql("SELECT * FROM t_1")'' @ post) =
        regex_search (run_sql_at is_quote) (asc ''run_sql("SELECT * FROM t_1")'' @ post)\<close>
    using search_skips_prefix [OF assms, of is_quote] by (simp add: fixture_split)
  also have \<open>\<dots> = Some (asc ''SELECT * FROM t_1'')\<close>
    by (rule regex_search_hit) (rule run_sql_at_fixture)
  finally have m: \<open>regex_search (run_sql_at is_quote) (pre @ asc ''run_sql("SELECT * FROM t_1")'' @ post) =
        Some (asc ''SELECT * FROM t_1'')\<close> .
  have q: \<open>stringify_query (asc ''SELECT * FROM t_1'') = asc ''{"query":"SELECT * FROM t_1"}''\<close>
    by (simp add: stringify_query_def json_quote_def asc_def is_high_surrogate_def is_low_surrogate_def)
  show ?thesis
    by (simp only: detectManualToolCall_def Let_def m q option.case)
qed

lemma parse_fixture:
  \<open>json_parse (asc ''{"query":"SELECT * FROM t_1"}'') = Some (JObj [(asc ''query'', JStr (asc ''SELECT * FROM t_1''))])\<close>
  by (simp add: json_eval str_eval)


lemma rescue_keeps_structured:
  "toolCallsBuffer \<noteq> [] \<Longrightarrow> rescue e thought toolCallsBuffer st = (toolCallsBuffer, st)"
  by (simp add: rescue_def)

lemma detect_earlier:
  \<open>detectManualToolCall 0 (asc ''run_sql("SELECT 1") then run_sql("SELECT * FROM t_1")'') =
     Some \<lparr>tc_id = Some (asc ''manual-sql-0''), tc_name = asc ''run_sql'',
            tc_arguments = asc ''{"query":"SELECT 1"}''\<rparr>\<close>
  by (simp add: detectManualToolCall_def run_sql_at_def closes_def stringify_query_def json_quote_def
      is_high_surrogate_def is_low_surrogate_def show_nat.simps str_eval)

lemma parse_earlier:
  \<open>json_parse (asc ''{"query":"SELECT 1"}'') = Some (JObj [(asc ''query'', JStr (asc ''SELECT 1''))])\<close>
  by (simp add: json_eval str_eval)

text \<open>
  C6, as the specification states it, fails: a thought text can contain
  \<^verbatim>\<open>run_sql("SELECT * FROM t_1")\<close> and yield a call with another query. The pattern is
  matched at its first occurrence, here the call \<^verbatim>\<open>run_sql("SELECT 1")\<close> that stands before
  the fixture.
\<close>

theorem manual_rescue_counterexample:
  \<open>js_includes (asc ''run_sql("SELECT 1") then run_sql("SELECT * FROM t_1")'')
      (asc ''run_sql("SELECT * FROM t_1")'') \<and>
   rescue (demo_env silent_turn Failed (Threw []))
      (asc ''run_sql("SELECT 1") then run_sql("SELECT * FROM t_1")'') []
      (initial_state (demo_env silent_turn Failed (Threw [])) (asc ''q'')) =
     ([Some \<lparr>tc_id = Some (asc ''manual-sql-0''), tc_name = asc ''run_sql'',
              tc_arguments = asc ''{"query":"SELECT 1"}''\<rparr>],
      (initial_state (demo_env silent_turn Failed (Threw [])) (asc ''q''))\<lparr>ticks := 1\<rparr>) \<and>
   json_parse (asc ''{"query":"SELECT 1"}'') = Some (JObj [(asc ''query'', JStr (asc ''SELECT 1''))]) \<and>
   asc ''SELECT 1'' \<noteq> asc ''SELECT * FROM t_1''\<close>
proof -
  have i: \<open>js_includes (asc ''run_sql("SELECT 1") then run_sql("SELECT * FROM t_1")'')
      (asc ''run_sql("SELECT * FROM t_1")'')\<close>
    by (simp add: str_eval)
  have c: "clock (demo_env silent_turn Failed (Threw [])) 0 = 0" by (simp add: demo_env_def)
  have r: \<open>rescue (demo_env silent_turn Failed (Threw []))
      (asc ''run_sql("SELECT 1") then run_sql("SELECT * FROM t_1")'') []
      (initial_state (demo_env silent_turn Failed (Threw [])) (asc ''q'')) =
     ([Some \<lparr>tc_id = Some (asc ''manual-sql-0''), tc_name = asc ''run_sql'',
              tc_arguments = asc ''{"query":"SELECT 1"}''\<rparr>],
      (initial_state (demo_env silent_turn Failed (Threw [])) (asc ''q''))\<lparr>ticks := 1\<rparr>)\<close>
    by (simp add: rescue_def initial_state_def c detect_earlier)
  have n: \<open>asc ''SELECT 1'' \<noteq> asc ''SELECT * FROM t_1''\<close> by (simp add: asc_def)
  from i r parse_earlier n show ?thesis by (intro conjI)
qed

text \<open>
  C6, amended. The rescue leaves a non-empty buffer of structured tool calls as it is,
  whatever the thought text contains. With an empty buffer and a thought text in which
  \<^verbatim>\<open>run_sql("SELECT * FROM t_1")\<close> is the first occurrence of \<^verbatim>\<open>run_sql\<close>, it puts exactly one
  call into the buffer, a \<^verbatim>\<open>run_sql\<close> call whose argument text parses to an object with
  \<^verbatim>\<open>query\<close> equal to \<^verbatim>\<open>SELECT * FROM t_1\<close>.
\<close>

theorem manual_rescue:
  \<open>(toolCallsBuffer \<noteq> [] \<longrightarrow> rescue e thought toolCallsBuffer st = (toolCallsBuffer, st)) \<and>
   (\<not> js_includes pre (asc ''run_sql'') \<longrightarrow>
      (\<exists>c. rescue e (pre @ asc ''run_sql("SELECT * FROM t_1")'' @ post) [] st =
             ([Some c], st\<lparr>ticks := ticks st + 1\<rparr>) \<and>
           tc_name c = asc ''run_sql'' \<and>
           map_option (\<lambda>a. get_prop a (asc ''query'')) (json_parse (tc_arguments c)) =
             Some (JStr (asc ''SELECT * FROM t_1''))))\<close>
proof (intro conjI impI)
  assume "toolCallsBuffer \<noteq> []"
  then show "rescue e thought toolCallsBuffer st = (toolCallsBuffer, st)"
    by (rule rescue_keeps_structured)
next
  assume pre: "\<not> js_includes pre (asc ''run_sql'')"
  let ?c = \<open>\<lparr>tc_id = Some (asc ''manual-sql-'' @ show_nat (clock e (ticks st))), tc_name = asc ''run_sql'',
              tc_arguments = asc ''{"query":"SELECT * FROM t_1"}''\<rparr>\<close>
  have r: \<open>rescue e (pre @ asc ''run_sql("SELECT * FROM t_1")'' @ post) [] st =
             ([Some ?c], st\<lparr>ticks := ticks st + 1\<rparr>)\<close>
    by (simp add: rescue_def detect_fixture [OF pre])
  have p: \<open>map_option (\<lambda>a. get_prop a (asc ''query'')) (json_parse (tc_arguments ?c)) =
             Some (JStr (asc ''SELECT * FROM t_1''))\<close>
    by (simp add: parse_fixture)
  from r p show \<open>\<exists>c. rescue e (pre @ asc ''run_sql("SELECT * FROM t_1")'' @ post) [] st =
             ([Some c], st\<lparr>ticks := ticks st + 1\<rparr>) \<and>
           tc_name c = asc ''run_sql'' \<and>
           map_option (\<lambda>a. get_prop a (asc ''query'')) (json_parse (tc_arguments c)) =
             Some (JStr (asc ''SELECT * FROM t_1''))\<close>
    by (intro exI [of _ ?c]) simp
qed

theorem manual_rescue_witness:
  \<open>[Some \<lparr>tc_id = Some (asc ''call_1''), tc_name = asc ''get_database_schema'', tc_arguments = asc ''{}''\<rparr>] \<noteq> [] \<and>
   rescue (demo_env silent_turn Failed (Threw [])) (asc ''I will call run_sql("SELECT * FROM t_1") now'')
     [Some \<lparr>tc_id = Some (asc ''call_1''), tc_name = asc ''get_database_schema'', tc_arguments = asc ''{}''\<rparr>]
     (initial_state (demo_env silent_turn Failed (Threw [])) (asc ''q'')) =
     ([Some \<lparr>tc_id = Some (asc ''call_1''), tc_name = asc ''get_database_schema'', tc_arguments = asc ''{}''\<rparr>],
      initial_state (demo_env silent_turn Failed (Threw [])) (asc ''q'')) \<and>
   \<not> js_includes (asc ''I will call '') (asc ''run_sql'') \<and>
   (\<exists>c. rescue (demo_env silent_turn Failed (Threw [])) (asc ''I will call '' @ asc ''run_sql("SELECT * FROM t_1")'' @ asc '' now'') []
          (initial_state (demo_env silent_turn Failed (Threw [])) (asc ''q'')) =
          ([Some c], (initial_state (demo_env silent_turn Failed (Threw [])) (asc ''q''))\<lparr>ticks := 1\<rparr>) \<and>
        tc_name c = asc ''run_sql'' \<and>
        map_option (\<lambda>a. get_prop a (asc ''query'')) (json_parse (tc_arguments c)) =
          Some (JStr (asc ''SELECT * FROM t_1'')))\<close>
proof -
  let ?e = "demo_env silent_turn Failed (Threw [])"
  let ?tc = "\<lparr>tc_id = Some (asc ''call_1''), tc_name = asc ''get_database_schema'', tc_arguments = asc ''{}''\<rparr>"
  have a: "[Some ?tc] \<noteq> []" by simp
  have b: "\<not> js_includes (asc ''I will call '') (asc ''run_sql'')"
    by (simp add: str_eval)
  have t: "ticks (initial_state ?e (asc ''q'')) = 0" by (simp add: initial_state_def)
  note m = manual_rescue [of "[Some ?tc]" ?e \<open>asc ''I will call run_sql("SELECT * FROM t_1") now''\<close>
      "initial_state ?e (asc ''q'')" "asc ''I will call ''" "asc '' now''"]
  from m a have 1: \<open>rescue ?e (asc ''I will call run_sql("SELECT * FROM t_1") now'') [Some ?tc]
      (initial_state ?e (asc ''q'')) = ([Some ?tc], initial_state ?e (asc ''q''))\<close>
    by blast
  from m b have 2: \<open>\<exists>c. rescue ?e (asc ''I will call '' @ asc ''run_sql("SELECT * FROM t_1")'' @ asc '' now'') []
          (initial_state ?e (asc ''q'')) =
          ([Some c], (initial_state ?e (asc ''q''))\<lparr>ticks := ticks (initial_state ?e (asc ''q'')) + 1\<rparr>) \<and>
        tc_name c = asc ''run_sql'' \<and>
        map_option (\<lambda>a. get_prop a (asc ''query'')) (json_parse (tc_arguments c)) =
          Some (JStr (asc ''SELECT * FROM t_1''))\<close>
    by blast
  from a 1 b 2 show ?thesis unfolding t by simp
qed


section \<open>SQL identifier sanitizer: the alias fixtures\<close>

lemma sanitize_total_sum:
  \<open>sanitizeSql (asc ''SELECT a AS total_sum FROM t'') = asc ''SELECT a AS total_sum FROM t''\<close>
  by (simp add: str_eval sanitize_eval)

lemma sanitize_cjk:
  \<open>sanitizeSql (asc ''SELECT a AS '' @ [24635, 35745] @ asc '' FROM t'') =
     asc ''SELECT a AS ['' @ [24635, 35745] @ asc ''] FROM t''\<close>
  by (simp add: str_eval sanitize_eval)

lemma sanitize_quoted_cjk:
  \<open>sanitizeSql (asc ''SELECT a AS "'' @ [24635, 32, 35745] @ asc ''" FROM t'') =
     asc ''SELECT a AS ['' @ [24635] @ asc ''] '' @ [35745] @ asc ''" FROM t''\<close>
  by (simp add: str_eval sanitize_eval)

lemma sanitize_synthetic:
  \<open>sanitizeSql (asc ''SELECT a AS a-b, c AS 1x FROM t'') = asc ''SELECT a AS col_1, c AS col_2 FROM t''\<close>
  by (simp add: str_eval sanitize_eval show_nat.simps)

lemma quoted_alias_no_synthetic:
  \<open>\<not> js_includes (sanitizeSql (asc ''SELECT a AS "'' @ [24635, 32, 35745] @ asc ''" FROM t''))
       (asc ''col_'')\<close>
  unfolding sanitize_quoted_cjk by (simp add: str_eval)

lemma cjk_no_word_char: "is_cjk c \<Longrightarrow> \<not> is_word_char c"
  by (simp add: is_cjk_def is_word_char_def is_digit_def)

lemma cjk_not_all_word: "list_ex is_cjk s \<Longrightarrow> \<not> list_all is_word_char s"
  by (induction s) (auto simp add: cjk_no_word_char)

lemma has_cjk_no_ident: "has_cjk s \<Longrightarrow> \<not> is_ascii_ident s"
  by (simp add: has_cjk_def is_ascii_ident_def cjk_not_all_word)

lemma has_cjk_nonempty: "has_cjk s \<Longrightarrow> s \<noteq> []"
  by (auto simp add: has_cjk_def)

lemma strip_ends_Nil: "strip_ends p q [] = []"
  by (simp add: strip_ends_def)

lemma cjk_alias:
  assumes "has_cjk (strip_ends (\<lambda>c. c = 91) (\<lambda>c. c = 93) (strip_ends is_quote is_quote (js_trim alias)))"
  shows "alias_callback aliasIndex matched alias =
        (if fully_bracketed (strip_ends is_quote is_quote (js_trim alias)) then matched
         else replace_first matched alias
                ([91] @ strip_ends (\<lambda>c. c = 91) (\<lambda>c. c = 93) (strip_ends is_quote is_quote (js_trim alias)) @ [93]),
         aliasIndex)"
proof -
  have "strip_ends is_quote is_quote (js_trim alias) \<noteq> []"
    using has_cjk_nonempty [OF assms] by (auto simp add: strip_ends_Nil)
  then show ?thesis
    using has_cjk_no_ident [OF assms] assms by (simp add: alias_callback_def Let_def)
qed

text \<open>
  C3, as the specification states it, fails on its third fixture: the alias written
  \<^verbatim>\<open>"\<close>, U+603B, space, U+8BA1, \<^verbatim>\<open>"\<close> is not replaced by \<^verbatim>\<open>col_1\<close>.
\<close>

theorem alias_fixture_counterexample:
  \<open>sanitizeSql (asc ''SELECT a AS "'' @ [24635, 32, 35745] @ asc ''" FROM t'') \<noteq>
     asc ''SELECT a AS col_1 FROM t'' \<and>
   \<not> js_includes (sanitizeSql (asc ''SELECT a AS "'' @ [24635, 32, 35745] @ asc ''" FROM t''))
       (asc ''col_1'')\<close>
  unfolding sanitize_quoted_cjk by (simp add: str_eval)

text \<open>
  C3, amended. The alias \<^verbatim>\<open>total_sum\<close> stays the bare identifier; the alias U+603B U+8BA1
  is put in brackets; the aliases \<^verbatim>\<open>a-b\<close> and \<^verbatim>\<open>1x\<close>, which are no identifiers and hold no
  CJK character, are replaced by \<^verbatim>\<open>col_1\<close> and \<^verbatim>\<open>col_2\<close>. The CJK test of the callback asks
  for one CJK character in the alias stripped of its quotes and brackets, not for CJK
  characters only: such an alias is left as it is when it is fully bracket-quoted, is put
  in brackets otherwise, and is never replaced by a synthetic identifier. So the statement
  with the quoted alias that holds a space comes out without any \<^verbatim>\<open>col_\<close>.
\<close>

theorem alias_fixtures:
  \<open>sanitizeSql (asc ''SELECT a AS total_sum FROM t'') = asc ''SELECT a AS total_sum FROM t'' \<and>
   sanitizeSql (asc ''SELECT a AS '' @ [24635, 35745] @ asc '' FROM t'') =
     asc ''SELECT a AS ['' @ [24635, 35745] @ asc ''] FROM t'' \<and>
   sanitizeSql (asc ''SELECT a AS a-b, c AS 1x FROM t'') = asc ''SELECT a AS col_1, c AS col_2 FROM t'' \<and>
   \<not> js_includes (sanitizeSql (asc ''SELECT a AS "'' @ [24635, 32, 35745] @ asc ''" FROM t''))
       (asc ''col_'') \<and>
   (has_cjk (strip_ends (\<lambda>c. c = 91) (\<lambda>c. c = 93) (strip_ends is_quote is_quote (js_trim alias))) \<longrightarrow>
      alias_callback aliasIndex matched alias =
        (if fully_bracketed (strip_ends is_quote is_quote (js_trim alias)) then matched
         else replace_first matched alias
                ([91] @ strip_ends (\<lambda>c. c = 91) (\<lambda>c. c = 93) (strip_ends is_quote is_quote (js_trim alias)) @ [93]),
         aliasIndex))\<close>
  using sanitize_total_sum sanitize_cjk sanitize_synthetic quoted_alias_no_synthetic
    cjk_alias [of "alias" aliasIndex matched]
  by (intro conjI impI)

theorem alias_fixtures_witness:
  \<open>has_cjk (strip_ends (\<lambda>c. c = 91) (\<lambda>c. c = 93) (strip_ends is_quote is_quote (js_trim ([24635, 35745, 37])))) \<and>
   alias_callback 1 (asc ''AS '' @ [24635, 35745, 37]) [24635, 35745, 37] =
     (asc ''AS ['' @ [24635, 35745, 37] @ asc '']'', 1)\<close>
proof -
  have h: \<open>has_cjk (strip_ends (\<lambda>c. c = 91) (\<lambda>c. c = 93) (strip_ends is_quote is_quote (js_trim ([24635, 35745, 37]))))\<close>
    by (simp add: str_eval sanitize_eval)
  note a = alias_fixtures [of "[24635, 35745, 37]" 1 \<open>asc ''AS '' @ [24635, 35745, 37]\<close>,
      THEN conjunct2, THEN conjunct2, THEN conjunct2, THEN conjunct2, THEN mp, OF h]
  have \<open>alias_callback 1 (asc ''AS '' @ [24635, 35745, 37]) [24635, 35745, 37] =
     (asc ''AS ['' @ [24635, 35745, 37] @ asc '']'', 1)\<close>
    unfolding a by (simp add: str_eval sanitize_eval)
  with h show ?thesis ..
qed

section \<open>Compression accumulator: proofs\<close>

lemma raw_marker_nonempty: "raw_marker i bj \<noteq> []"
  by (simp add: raw_marker_def)

lemma compress_never_aborts:
  assumes "list_all (\<lambda>b. stringify jse (JArr b) \<noteq> None) batches"
  shows "\<exists>t. co_result (compress_loop jse ask q sql n B i batches acc prog) = Some t"
  using assms
proof (induction batches arbitrary: i acc prog)
  case Nil
  then show ?case by simp
next
  case (Cons b bs)
  then obtain bj where bj: "stringify jse (JArr b) = Some bj" by auto
  from Cons.prems have rest: "list_all (\<lambda>b. stringify jse (JArr b) \<noteq> None) bs" by simp
  show ?case
  proof (cases "ask i \<lparr>req_question = q, req_sql = sql,
                 req_previous = (if acc = [] then first_batch_marker else acc),
                 req_batch = bj\<rparr>")
    case Failed
    show ?thesis
      using bj Failed Cons.IH [OF rest] by (simp add: Let_def)
  next
    case (Content c)
    show ?thesis
      using bj Content Cons.IH [OF rest] by (simp add: Let_def)
  qed
qed

text \<open>
  C7, amended. When a batch is rendered and the model answers, the accumulated text is
  replaced by the trimmed answer; when the model call fails, the fold goes on with the
  accumulated text followed by the raw marker of that batch. After a failure on the last
  batch the result is the earlier text and the marker; after a failure before the last
  batch, the next request has the earlier text and the marker as its previous context, and
  the result is that batch's answer if it succeeds. Whatever the model calls do, the fold
  returns a text as long as every batch can be rendered.
\<close>

theorem compression_fold:
  assumes "stringify jse (JArr batch) = Some bj"
  shows
    "(ask i \<lparr>req_question = q, req_sql = sql,
              req_previous = (if acc = [] then first_batch_marker else acc), req_batch = bj\<rparr> = Content c \<longrightarrow>
        compress_loop jse ask q sql n B i (batch # rest) acc prog =
        compress_loop jse ask q sql n B (i + 1) rest (case c of Some s \<Rightarrow> js_trim s | None \<Rightarrow> [])
          (prog @ [progress_message i n B])) \<and>
     (ask i \<lparr>req_question = q, req_sql = sql,
              req_previous = (if acc = [] then first_batch_marker else acc), req_batch = bj\<rparr> = Failed \<longrightarrow>
        compress_loop jse ask q sql n B i (batch # rest) acc prog =
        compress_loop jse ask q sql n B (i + 1) rest (acc @ raw_marker i bj)
          (prog @ [progress_message i n B]) \<and>
        co_result (compress_loop jse ask q sql n B i [batch] acc prog) = Some (acc @ raw_marker i bj) \<and>
        (stringify jse (JArr next_batch) = Some nj \<longrightarrow>
           co_result (compress_loop jse ask q sql n B i [batch, next_batch] acc prog) =
             Some (case ask (i + 1) \<lparr>req_question = q, req_sql = sql,
                                      req_previous = acc @ raw_marker i bj, req_batch = nj\<rparr> of
                     Content c' \<Rightarrow> (case c' of Some s \<Rightarrow> js_trim s | None \<Rightarrow> [])
                   | Failed \<Rightarrow> (acc @ raw_marker i bj) @ raw_marker (i + 1) nj))) \<and>
     (list_all (\<lambda>b. stringify jse (JArr b) \<noteq> None) rest \<longrightarrow>
        (\<exists>t. co_result (compress_loop jse ask q sql n B i (batch # rest) acc prog) = Some t))"
proof (intro conjI impI)
  assume c: "ask i \<lparr>req_question = q, req_sql = sql,
              req_previous = (if acc = [] then first_batch_marker else acc), req_batch = bj\<rparr> = Content c"
  show "compress_loop jse ask q sql n B i (batch # rest) acc prog =
        compress_loop jse ask q sql n B (i + 1) rest (case c of Some s \<Rightarrow> js_trim s | None \<Rightarrow> [])
          (prog @ [progress_message i n B])"
    using assms c by (simp add: Let_def)
next
  assume f: "ask i \<lparr>req_question = q, req_sql = sql,
              req_previous = (if acc = [] then first_batch_marker else acc), req_batch = bj\<rparr> = Failed"
  show "compress_loop jse ask q sql n B i (batch # rest) acc prog =
        compress_loop jse ask q sql n B (i + 1) rest (acc @ raw_marker i bj)
          (prog @ [progress_message i n B])"
    using assms f by (simp add: Let_def)
  show "co_result (compress_loop jse ask q sql n B i [batch] acc prog) = Some (acc @ raw_marker i bj)"
    using assms f by (simp add: Let_def)
  assume nj: "stringify jse (JArr next_batch) = Some nj"
  show "co_result (compress_loop jse ask q sql n B i [batch, next_batch] acc prog) =
             Some (case ask (i + 1) \<lparr>req_question = q, req_sql = sql,
                                      req_previous = acc @ raw_marker i bj, req_batch = nj\<rparr> of
                     Content c' \<Rightarrow> (case c' of Some s \<Rightarrow> js_trim s | None \<Rightarrow> [])
                   | Failed \<Rightarrow> (acc @ raw_marker i bj) @ raw_marker (i + 1) nj)"
    using assms f nj by (simp add: Let_def raw_marker_nonempty split: completion.split)
next
  assume "list_all (\<lambda>b. stringify jse (JArr b) \<noteq> None) rest"
  with assms have "list_all (\<lambda>b. stringify jse (JArr b) \<noteq> None) (batch # rest)" by simp
  then show "\<exists>t. co_result (compress_loop jse ask q sql n B i (batch # rest) acc prog) = Some t"
    by (rule compress_never_aborts)
qed

lemma scan_rows_nulls: "scan_rows e (replicate k JNull) t = t"
  by (induction k) simp_all

lemma batch_size_of_nulls: "calculateAdaptiveBatchSize jse (replicate 201 JNull) = 100"
  by (simp add: calculateAdaptiveBatchSize_def Let_def scan_rows_nulls zero_totals_def
      batch_from_metrics_def js_add_def js_sub_def js_mul_def js_div_def binary64_zero
      binary64_int_small)

lemma batches_of_Nil: "batches_of n [] = Some []"
  by (subst batches_of.simps) simp

lemma batches_of_step:
  "xs \<noteq> [] \<Longrightarrow> 0 < n \<Longrightarrow>
   batches_of n xs = map_option ((#) (take n xs)) (batches_of n (drop n xs))"
  by (subst batches_of.simps) simp

lemma batches_of_nulls:
  "batches_of 100 (replicate 201 JNull) =
     Some [replicate 100 JNull, replicate 100 JNull, replicate 1 JNull]"
proof -
  have a: "batches_of 100 (replicate 1 JNull) = Some [replicate 1 JNull]"
    by (simp add: batches_of_step batches_of_Nil)
  have b: "batches_of 100 (replicate 101 JNull) = Some [replicate 100 JNull, replicate 1 JNull]"
    using a by (simp add: batches_of_step)
  show ?thesis
    using b by (simp add: batches_of_step)
qed

text \<open>
  C7, as the specification states it, fails: with three batches of which the second
  fails, the result is the answer to the third batch and carries neither the text
  accumulated before nor the raw data of the failed batch.
\<close>

theorem compression_fold_counterexample:
  "smartCompressData demo_js demo_ask (replicate 201 JNull) (asc ''q'') (asc ''SELECT 1'') =
     Some \<lparr>co_progress = [progress_message 0 3 100, progress_message 1 3 100, progress_message 2 3 100],
           co_result = Some (asc ''C'')\<rparr> \<and>
   \<not> js_includes (asc ''C'') (asc ''A'') \<and>
   \<not> js_includes (asc ''C'') (raw_marker 1 (asc ''[data]'')) \<and>
   \<not> js_includes (asc ''C'') (asc ''[data]'')"
proof -
  have s: "smartCompressData demo_js demo_ask (replicate 201 JNull) (asc ''q'') (asc ''SELECT 1'') =
     Some \<lparr>co_progress = [progress_message 0 3 100, progress_message 1 3 100, progress_message 2 3 100],
           co_result = Some (asc ''C'')\<rparr>"
    by (simp add: smartCompressData_def batch_size_of_nulls batches_of_nulls Let_def demo_js_def
        demo_ask_def js_trim_def is_js_space_def asc_def numeral_3_eq_3 numeral_2_eq_2)
  have i: "\<not> js_includes (asc ''C'') (asc ''A'') \<and>
   \<not> js_includes (asc ''C'') (raw_marker 1 (asc ''[data]'')) \<and>
   \<not> js_includes (asc ''C'') (asc ''[data]'')"
    by (simp add: raw_marker_def str_eval)
  from s i show ?thesis by blast
qed

theorem compression_fold_witness:
  "stringify demo_js (JArr [JNull]) = Some (asc ''[data]'') \<and>
   demo_ask 1 \<lparr>req_question = asc ''q'', req_sql = asc ''SELECT 1'', req_previous = asc ''A'',
               req_batch = asc ''[data]''\<rparr> = Failed \<and>
   co_result (compress_loop demo_js demo_ask (asc ''q'') (asc ''SELECT 1'') 3 100 1 [[JNull]] (asc ''A'') []) =
     Some (asc ''A'' @ raw_marker 1 (asc ''[data]'')) \<and>
   co_result (compress_loop demo_js demo_ask (asc ''q'') (asc ''SELECT 1'') 3 100 1 [[JNull], [JNull]] (asc ''A'') []) =
     Some (asc ''C'')"
proof -
  have a: "stringify demo_js (JArr [JNull]) = Some (asc ''[data]'')"
    by (simp add: demo_js_def)
  have f: "demo_ask 1 \<lparr>req_question = asc ''q'', req_sql = asc ''SELECT 1'',
             req_previous = (if asc ''A'' = [] then first_batch_marker else asc ''A''),
             req_batch = asc ''[data]''\<rparr> = Failed"
    by (simp add: demo_ask_def)
  have f': "demo_ask 1 \<lparr>req_question = asc ''q'', req_sql = asc ''SELECT 1'', req_previous = asc ''A'',
               req_batch = asc ''[data]''\<rparr> = Failed"
    by (simp add: demo_ask_def)
  note t = compression_fold [OF a, of demo_ask 1 "asc ''q''" "asc ''SELECT 1''" "asc ''A''" _ 3 100 "[]" "[]"
      "[JNull]" "asc ''[data]''"]
  from t f a have 1: "co_result (compress_loop demo_js demo_ask (asc ''q'') (asc ''SELECT 1'') 3 100 1 [[JNull]] (asc ''A'') []) =
     Some (asc ''A'' @ raw_marker 1 (asc ''[data]''))"
    by blast
  from t f a have "co_result (compress_loop demo_js demo_ask (asc ''q'') (asc ''SELECT 1'') 3 100 1 [[JNull], [JNull]] (asc ''A'') []) =
     Some (case demo_ask (1 + 1) \<lparr>req_question = asc ''q'', req_sql = asc ''SELECT 1'',
                                      req_previous = asc ''A'' @ raw_marker 1 (asc ''[data]''), req_batch = asc ''[data]''\<rparr> of
                     Content c' \<Rightarrow> (case c' of Some s \<Rightarrow> js_trim s | None \<Rightarrow> [])
                   | Failed \<Rightarrow> (asc ''A'' @ raw_marker 1 (asc ''[data]'')) @ raw_marker (1 + 1) (asc ''[data]''))"
    by blast
  then have 2: "co_result (compress_loop demo_js demo_ask (asc ''q'') (asc ''SELECT 1'') 3 100 1 [[JNull], [JNull]] (asc ''A'') []) =
     Some (asc ''C'')"
    by (simp add: demo_ask_def js_trim_def is_js_space_def asc_def)
  from a f' 1 2 show ?thesis by blast
qed


section \<open>State bookkeeping\<close>

lemma notify_simps [simp]:
  "steps (notify st) = steps st" "messages (notify st) = messages st"
  "answers (notify st) = answers st" "ticks (notify st) = ticks st"
  "executed (notify st) = executed st" "updates (notify st) = updates st @ [steps st]"
  by (simp_all add: notify_def)

lemma pushStep_simps [simp]:
  "steps (pushStep s st) = steps st @ [s]" "messages (pushStep s st) = messages st"
  "answers (pushStep s st) = answers st" "ticks (pushStep s st) = ticks st"
  "executed (pushStep s st) = executed st"
  by (simp_all add: pushStep_def)

lemma set_last_simps [simp]:
  "messages (set_last f st) = messages st" "answers (set_last f st) = answers st"
  "ticks (set_last f st) = ticks st" "executed (set_last f st) = executed st"
  "steps (set_last f st) = (if steps st = [] then [] else butlast (steps st) @ [f (last (steps st))])"
  by (simp_all add: set_last_def)

lemma updateLastStep_simps [simp]:
  "messages (updateLastStep c s st) = messages st" "answers (updateLastStep c s st) = answers st"
  "ticks (updateLastStep c s st) = ticks st" "executed (updateLastStep c s st) = executed st"
  "steps (updateLastStep c s st) =
     (if steps st = [] then []
      else butlast (steps st) @ [(last (steps st))\<lparr>step_content := c, step_status := s\<rparr>])"
  by (simp_all add: updateLastStep_def)

lemma fresh_id_simps [simp]:
  "fst (fresh_id e p st) = p @ show_nat (clock e (ticks st))"
  "snd (fresh_id e p st) = st\<lparr>ticks := ticks st + 1\<rparr>"
  by (simp_all add: fresh_id_def)

lemma observe_simps [simp]:
  "steps (observe e tc text res st) =
     steps st @ [\<lparr>step_id = asc ''obs-'' @ show_nat (clock e (ticks st)), step_type = Observation,
                  step_content = text, step_status = Complete, step_toolName = None,
                  step_result = Some res\<rparr>]"
  "messages (observe e tc text res st) = messages st @ [ToolMessage (tc_id tc) (tc_name tc) text]"
  "answers (observe e tc text res st) = answers st"
  "executed (observe e tc text res st) = executed st"
  "ticks (observe e tc text res st) = ticks st + 1"
  by (simp_all add: observe_def fresh_id_def Let_def)

lemma open_thought_simps [simp]:
  "steps (open_thought e st) =
     steps st @ [\<lparr>step_id = asc ''step-'' @ show_nat (clock e (ticks st)), step_type = Thought,
                  step_content = [], step_status = Streaming, step_toolName = None,
                  step_result = None\<rparr>]"
  "messages (open_thought e st) = messages st" "answers (open_thought e st) = answers st"
  "executed (open_thought e st) = executed st" "ticks (open_thought e st) = ticks st + 1"
  by (simp_all add: open_thought_def fresh_id_def Let_def)

lemma record_error_simps [simp]:
  "steps (record_error e msg st) =
     steps st @ [\<lparr>step_id = asc ''err-'' @ show_nat (clock e (ticks st)), step_type = Thought,
                  step_content = asc ''Agent Error: '' @ msg, step_status = Error,
                  step_toolName = None, step_result = None\<rparr>]"
  "messages (record_error e msg st) = messages st" "answers (record_error e msg st) = answers st"
  "executed (record_error e msg st) = executed st"
  by (simp_all add: record_error_def fresh_id_def Let_def)

section \<open>The stream\<close>

lemma consume_stream_thought:
  "fst (consume_stream ds t b st) = t @ assembled_thought ds"
  by (induction ds arbitrary: t b st)
     (auto simp add: assembled_thought_def Let_def split: option.splits prod.splits)

lemma consume_stream_calls:
  "fst (snd (consume_stream ds t b st)) = foldl (\<lambda>buf d. foldl merge_fragment buf (d_tool_calls d)) b ds"
  by (induction ds arbitrary: t b st)
     (auto simp add: Let_def split: option.splits prod.splits)

lemma consume_stream_keeps:
  "messages (snd (snd (consume_stream ds t b st))) = messages st \<and>
   answers (snd (snd (consume_stream ds t b st))) = answers st \<and>
   executed (snd (snd (consume_stream ds t b st))) = executed st \<and>
   ticks (snd (snd (consume_stream ds t b st))) = ticks st"
  by (induction ds arbitrary: t b st)
     (auto simp add: Let_def split: option.splits prod.splits)

lemma consume_stream_steps:
  assumes "steps st \<noteq> []"
  shows "\<exists>c s. steps (snd (snd (consume_stream ds t b st))) =
           butlast (steps st) @ [(last (steps st))\<lparr>step_content := c, step_status := s\<rparr>] \<and>
           (s = step_status (last (steps st)) \<or> s = Streaming) \<and>
           (step_content (last (steps st)) = t \<longrightarrow> c = t @ assembled_thought ds)"
  using assms
proof (induction ds arbitrary: t b st)
  case Nil
  have "steps st = butlast (steps st) @ [(last (steps st))\<lparr>step_content := step_content (last (steps st)),
          step_status := step_status (last (steps st))\<rparr>]"
    using Nil by simp
  then have "steps (snd (snd (consume_stream [] t b st))) =
           butlast (steps st) @ [(last (steps st))\<lparr>step_content := step_content (last (steps st)),
             step_status := step_status (last (steps st))\<rparr>] \<and>
           (step_status (last (steps st)) = step_status (last (steps st)) \<or>
            step_status (last (steps st)) = Streaming) \<and>
           (step_content (last (steps st)) = t \<longrightarrow>
            step_content (last (steps st)) = t @ assembled_thought [])"
    by (simp add: assembled_thought_def)
  then show ?case by blast
next
  case (Cons d ds)
  show ?case
  proof (cases "d_content d = None \<or> d_content d = Some []")
    case True
    then have eq: "consume_stream (d # ds) t b st = consume_stream ds t (foldl merge_fragment b (d_tool_calls d)) st"
      by (auto simp add: Let_def)
    have at: "assembled_thought (d # ds) = assembled_thought ds"
      using True by (auto simp add: assembled_thought_def)
    show ?thesis unfolding eq at by (rule Cons.IH [OF Cons.prems])
  next
    case False
    then obtain c where c: "d_content d = Some c" "c \<noteq> []" by auto
    let ?t = "t @ strip_close_tag c"
    let ?st = "updateLastStep ?t Streaming st"
    have eq: "consume_stream (d # ds) t b st = consume_stream ds ?t (foldl merge_fragment b (d_tool_calls d)) ?st"
      using c by (simp add: Let_def)
    have at: "t @ assembled_thought (d # ds) = ?t @ assembled_thought ds"
      using c by (simp add: assembled_thought_def)
    have ne: "steps ?st \<noteq> []" using Cons.prems by simp
    have bl: "butlast (steps ?st) = butlast (steps st)" using Cons.prems by simp
    have la: "last (steps ?st) = (last (steps st))\<lparr>step_content := ?t, step_status := Streaming\<rparr>"
      using Cons.prems by simp
    from Cons.IH [OF ne, of ?t "foldl merge_fragment b (d_tool_calls d)"]
    obtain c' s' where
      h: "steps (snd (snd (consume_stream ds ?t (foldl merge_fragment b (d_tool_calls d)) ?st))) =
            butlast (steps ?st) @ [(last (steps ?st))\<lparr>step_content := c', step_status := s'\<rparr>]"
         "s' = step_status (last (steps ?st)) \<or> s' = Streaming"
         "step_content (last (steps ?st)) = ?t \<longrightarrow> c' = ?t @ assembled_thought ds"
      by blast
    have s': "s' = Streaming" using h(2) la by auto
    have c': "c' = t @ assembled_thought (d # ds)" using h(3) la at by simp
    have "steps (snd (snd (consume_stream (d # ds) t b st))) =
            butlast (steps st) @ [(last (steps st))\<lparr>step_content := c', step_status := Streaming\<rparr>]"
      unfolding eq using h(1) by (simp add: bl la s')
    with c' show ?thesis by blast
  qed
qed


section \<open>Totality and what a dispatch preserves\<close>

lemma batches_of_total: "0 < n \<Longrightarrow> \<exists>bs. batches_of n xs = Some bs"
proof (induction n xs rule: batches_of.induct)
  case (1 n xs)
  show ?case
  proof (cases "xs = []")
    case True
    then show ?thesis by (simp add: batches_of_Nil)
  next
    case False
    with 1 obtain bs where "batches_of n (drop n xs) = Some bs" by auto
    with False 1(2) show ?thesis by (simp add: batches_of_step)
  qed
qed

lemma smartCompressData_total: "\<exists>out. smartCompressData jse ask data q sql = Some out"
proof (cases "data = []")
  case True
  then show ?thesis by (simp add: smartCompressData_def)
next
  case False
  have "0 < nat (calculateAdaptiveBatchSize jse data)"
    using batch_size_bounds [of jse data] by simp
  from batches_of_total [OF this, of data] obtain bs
    where "batches_of (nat (calculateAdaptiveBatchSize jse data)) data = Some bs" by blast
  with False show ?thesis by (simp add: smartCompressData_def Let_def)
qed

lemma on_progress_keeps [simp]:
  "messages (on_progress st m) = messages st" "answers (on_progress st m) = answers st"
  "executed (on_progress st m) = executed st" "ticks (on_progress st m) = ticks st"
  by (simp_all add: on_progress_def)

lemma foldl_on_progress_keeps [simp]:
  "messages (foldl on_progress st ms) = messages st" "answers (foldl on_progress st ms) = answers st"
  "executed (foldl on_progress st ms) = executed st" "ticks (foldl on_progress st ms) = ticks st"
  by (induction ms arbitrary: st) simp_all

lemma open_action_simps [simp]:
  "steps (open_action e tc st) =
     steps st @ [\<lparr>step_id = asc ''action-'' @ show_nat (clock e (ticks st)), step_type = Action,
                  step_content = asc ''parsing...'', step_status = Streaming,
                  step_toolName = Some (tc_name tc), step_result = None\<rparr>]"
  "messages (open_action e tc st) = messages st" "answers (open_action e tc st) = answers st"
  "executed (open_action e tc st) = executed st" "ticks (open_action e tc st) = ticks st + 1"
  by (simp_all add: open_action_def fresh_id_def Let_def)

text \<open>The state a result carries, whether it is a thrown error or a normal one.\<close>

lemma compress_rows_result:
  "\<exists>r. compress_rows e q sql data st = Some r \<and>
       (case r of Inl (m, s) \<Rightarrow> answers s = answers st | Inr (t, s) \<Rightarrow> answers s = answers st)"
proof -
  let ?st3 = "pushStep
                  \<lparr>step_id = asc ''compress-'' @ show_nat (clock e (ticks st)), step_type = Thought,
                   step_content = compress_step_text (length data) (calculateAdaptiveBatchSize (js e) data),
                   step_status = Streaming, step_toolName = None, step_result = None\<rparr>
                  (st\<lparr>ticks := ticks st + 1\<rparr>)"
  obtain out where out: "smartCompressData (js e) (summarize e (messages ?st3)) data q
                (js_String (number_to_string (js e)) sql) = Some out"
    using smartCompressData_total by blast
  show ?thesis
    unfolding compress_rows_def Let_def fresh_id_def
    using out by (simp split: option.split)
qed

lemma run_sql_tool_result:
  "\<exists>r. run_sql_tool e q fnArgs st = Some r \<and>
       (case r of Inl (m, s) \<Rightarrow> answers s = answers st | Inr (t, qr, s) \<Rightarrow> answers s = answers st)"
proof (cases "fnArgs = JNull")
  case True
  then show ?thesis by (simp add: run_sql_tool_def)
next
  case False
  show ?thesis
  proof (cases "sanitize_value (get_prop fnArgs (asc ''query''))")
    case None
    with False show ?thesis by (simp add: run_sql_tool_def)
  next
    case (Some sql)
    let ?qr = "executeSql (js e) (alasql e (executed st)) sql"
    let ?st1 = "st\<lparr>executed := executed st @ [sql]\<rparr>"
    from compress_rows_result [of e q sql "qr_data ?qr" ?st1]
    obtain r where r: "compress_rows e q sql (qr_data ?qr) ?st1 = Some r"
      "case r of Inl (m, s) \<Rightarrow> answers s = answers ?st1 | Inr (t, s) \<Rightarrow> answers s = answers ?st1"
      by blast
    show ?thesis
      using False Some r
      by (cases r) (auto simp add: run_sql_tool_def Let_def split: option.split)
  qed
qed

lemma run_tool_result:
  "\<exists>r. run_tool e q sch tc fnArgs st = Some r \<and>
       (case r of Inl (m, s) \<Rightarrow> answers s = answers st | Inr s \<Rightarrow> answers s = answers st)"
proof -
  from run_sql_tool_result [of e q fnArgs st]
  obtain r where r: "run_sql_tool e q fnArgs st = Some r"
    "case r of Inl (m, s) \<Rightarrow> answers s = answers st | Inr (t, qr, s) \<Rightarrow> answers s = answers st"
    by blast
  show ?thesis
    using r by (cases r) (auto simp add: run_tool_def)
qed

lemma dispatch_call_result:
  "\<exists>r. dispatch_call e q sch slot st = Some r \<and>
       (case r of Inl (m, s) \<Rightarrow> answers s = answers st | Inr s \<Rightarrow> answers s = answers st)"
proof (cases slot)
  case None
  then show ?thesis by (simp add: dispatch_call_def)
next
  case (Some tc)
  show ?thesis
  proof (cases "parse_arguments e (tc_arguments tc)")
    case None
    with Some show ?thesis by (simp add: dispatch_call_def Let_def)
  next
    case p: (Some pr)
    obtain fnArgs shown where pr: "pr = (fnArgs, shown)" by (cases pr)
    let ?st = "notify (set_last (\<lambda>l. l\<lparr>step_content := shown, step_status := Complete\<rparr>) (open_action e tc st))"
    from run_tool_result [of e q sch tc fnArgs ?st]
    obtain r where r: "run_tool e q sch tc fnArgs ?st = Some r"
      "case r of Inl (m, s) \<Rightarrow> answers s = answers ?st | Inr s \<Rightarrow> answers s = answers ?st"
      by blast
    show ?thesis
      using Some p pr r by (cases r) (auto simp add: dispatch_call_def Let_def)
  qed
qed

lemma dispatch_all_result:
  "\<exists>r. dispatch_all e q sch slots st = Some r \<and>
       (case r of Inl (m, s) \<Rightarrow> answers s = answers st | Inr s \<Rightarrow> answers s = answers st)"
proof (induction slots arbitrary: st)
  case Nil
  then show ?case by simp
next
  case (Cons slot slots)
  from dispatch_call_result [of e q sch slot st]
  obtain r where r: "dispatch_call e q sch slot st = Some r"
    "case r of Inl (m, s) \<Rightarrow> answers s = answers st | Inr s \<Rightarrow> answers s = answers st"
    by blast
  show ?case
  proof (cases r)
    case (Inl a)
    with r show ?thesis by (cases a) auto
  next
    case (Inr s)
    with r have s: "answers s = answers st" by simp
    from Cons.IH [of s] obtain r' where r': "dispatch_all e q sch slots s = Some r'"
      "case r' of Inl (m, s') \<Rightarrow> answers s' = answers s | Inr s' \<Rightarrow> answers s' = answers s"
      by blast
    show ?thesis
      using r Inr r' s by (cases r') auto
  qed
qed


section \<open>One iteration and the loop\<close>

lemma detect_nothing_in_empty: "detectManualToolCall now [] = None"
  by (simp add: detectManualToolCall_def run_sql_at_def starts_with_def asc_def)

lemma consume_stream_eq:
  "consume_stream ds t b st =
     (t @ assembled_thought ds, foldl (\<lambda>buf d. foldl merge_fragment buf (d_tool_calls d)) b ds,
      snd (snd (consume_stream ds t b st)))"
  using consume_stream_thought [of ds t b st] consume_stream_calls [of ds t b st]
  by (metis prod.collapse)

lemma try_block_stream_failure:
  assumes "failure (llm e (messages st)) = Some msg"
  shows "try_block e q sch st =
           Some (Inl (msg, snd (snd (consume_stream (chunks (llm e (messages st))) [] [] st))))"
  using assms
  by (simp add: try_block_def Let_def split: prod.split)

lemma try_block_silent:
  assumes "failure (llm e (messages st)) = None"
    and "assembled_calls (chunks (llm e (messages st))) = []"
    and "assembled_thought (chunks (llm e (messages st))) = []"
  shows "try_block e q sch st =
           Some (Inr (Break, updateLastStep [] Complete
                        (snd (snd (consume_stream (chunks (llm e (messages st))) [] [] st)))))"
proof -
  let ?ds = "chunks (llm e (messages st))"
  have c: "consume_stream ?ds [] [] st = ([], [], snd (snd (consume_stream ?ds [] [] st)))"
    using consume_stream_eq [of ?ds "[]" "[]" st] assms(2,3)
    by (simp add: assembled_calls_def)
  show ?thesis
    unfolding try_block_def Let_def
    by (subst c) (simp add: assms(1) rescue_def detect_nothing_in_empty)
qed

lemma try_block_result:
  "\<exists>r. try_block e q sch st = Some r \<and>
       (assembled_calls (chunks (llm e (messages st))) \<noteq> [] \<longrightarrow>
          (case r of Inl (m, s) \<Rightarrow> answers s = answers st
                   | Inr (c, s) \<Rightarrow> c = Continue \<and> answers s = answers st))"
proof (cases "failure (llm e (messages st))")
  case (Some msg)
  show ?thesis
    unfolding try_block_stream_failure [OF Some]
    using consume_stream_keeps [of "chunks (llm e (messages st))" "[]" "[]" st] by simp
next
  case None
  let ?ds = "chunks (llm e (messages st))"
  let ?st1 = "snd (snd (consume_stream ?ds [] [] st))"
  let ?st2 = "updateLastStep (assembled_thought ?ds) Complete ?st1"
  have c: "consume_stream ?ds [] [] st = (assembled_thought ?ds, assembled_calls ?ds, ?st1)"
    using consume_stream_eq [of ?ds "[]" "[]" st] by (simp add: assembled_calls_def)
  have k: "answers ?st2 = answers st"
    using consume_stream_keeps [of ?ds "[]" "[]" st] by simp
  obtain buf st3 where r: "rescue e (assembled_thought ?ds) (assembled_calls ?ds) ?st2 = (buf, st3)"
    by (cases "rescue e (assembled_thought ?ds) (assembled_calls ?ds) ?st2")
  have k3: "answers st3 = answers st"
    using r k by (auto simp add: rescue_def split: if_splits option.splits)
  have nb: "assembled_calls ?ds \<noteq> [] \<Longrightarrow> buf \<noteq> []"
    using r by (auto simp add: rescue_def)
  let ?st3' = "st3\<lparr>messages := messages st3 @ [AssistantToolCalls buf]\<rparr>"
  from dispatch_all_result [of e q sch buf ?st3']
  obtain d where d: "dispatch_all e q sch buf ?st3' = Some d"
    "case d of Inl (m, s) \<Rightarrow> answers s = answers ?st3' | Inr s \<Rightarrow> answers s = answers ?st3'"
    by blast
  have eq: "try_block e q sch st =
      (if 0 < length buf then
         (case d of Inl thrown \<Rightarrow> Some (Inl thrown) | Inr st4 \<Rightarrow> Some (Inr (Continue, st4)))
       else Some (Inr (Break,
              if assembled_thought ?ds \<noteq> [] then
                st3\<lparr>answers := answers st3 @ [assembled_thought ?ds],
                    messages := messages st3 @ [AssistantMessage (assembled_thought ?ds)]\<rparr>
              else st3)))"
    unfolding try_block_def Let_def
    by (subst c) (simp add: None r d(1) split: sum.split)
  show ?thesis
  proof (cases "buf = []")
    case True
    with nb have "assembled_calls ?ds = []" by blast
    with eq True show ?thesis by simp
  next
    case False
    show ?thesis
      using eq False d(2) k3 by (cases d) auto
  qed
qed

lemma iterate_result:
  "\<exists>c s. iterate e q sch st = Some (c, s) \<and>
       (assembled_calls (chunks (llm e (messages st))) \<noteq> [] \<longrightarrow>
          answers s = answers st \<and>
          (c = Continue \<or> (steps s \<noteq> [] \<and> step_status (last (steps s)) = Error)))"
proof -
  from try_block_result [of e q sch "open_thought e st", unfolded open_thought_simps]
  obtain r where r: "try_block e q sch (open_thought e st) = Some r"
    "assembled_calls (chunks (llm e (messages st))) \<noteq> [] \<longrightarrow>
          (case r of Inl (m, s) \<Rightarrow> answers s = answers st
                   | Inr (c, s) \<Rightarrow> c = Continue \<and> answers s = answers st)"
    by blast
  show ?thesis
  proof (cases r)
    case (Inl a)
    obtain m s where a: "a = (m, s)" by (cases a)
    show ?thesis using r Inl a by (simp add: iterate_def)
  next
    case (Inr b)
    obtain c s where b: "b = (c, s)" by (cases b)
    show ?thesis using r Inr b by (simp add: iterate_def)
  qed
qed

lemma agent_loop_done: "\<not> iteration < MAX_ITERATIONS \<Longrightarrow> agent_loop e q sch iteration st = Some (iteration, st)"
  by (subst agent_loop.simps) simp

lemma agent_loop_break:
  "iteration < MAX_ITERATIONS \<Longrightarrow> iterate e q sch st = Some (Break, s) \<Longrightarrow>
   agent_loop e q sch iteration st = Some (iteration + 1, s)"
  by (subst agent_loop.simps) simp

lemma agent_loop_continue:
  "iteration < MAX_ITERATIONS \<Longrightarrow> iterate e q sch st = Some (Continue, s) \<Longrightarrow>
   agent_loop e q sch iteration st = agent_loop e q sch (iteration + 1) s"
  by (subst agent_loop.simps) simp

lemma agent_loop_result:
  assumes "iteration \<le> MAX_ITERATIONS"
  shows "\<exists>n s. agent_loop e q sch iteration st = Some (n, s) \<and> iteration \<le> n \<and> n \<le> MAX_ITERATIONS \<and>
           ((\<forall>ms. assembled_calls (chunks (llm e ms)) \<noteq> []) \<longrightarrow>
              answers s = answers st \<and>
              (n = MAX_ITERATIONS \<or> (steps s \<noteq> [] \<and> step_status (last (steps s)) = Error)))"
  using assms
proof (induction "MAX_ITERATIONS - iteration" arbitrary: iteration st)
  case 0
  then have "\<not> iteration < MAX_ITERATIONS" by simp
  from agent_loop_done [OF this] 0 show ?case by simp
next
  case (Suc k)
  then have lt: "iteration < MAX_ITERATIONS" by simp
  from iterate_result [of e q sch st] obtain c s where
    it: "iterate e q sch st = Some (c, s)"
    and p: "assembled_calls (chunks (llm e (messages st))) \<noteq> [] \<longrightarrow>
          answers s = answers st \<and>
          (c = Continue \<or> (steps s \<noteq> [] \<and> step_status (last (steps s)) = Error))"
    by blast
  show ?case
  proof (cases c)
    case Break
    with it have "agent_loop e q sch iteration st = Some (iteration + 1, s)"
      using agent_loop_break [OF lt] by simp
    with p Break lt show ?thesis by auto
  next
    case Continue
    with it have eq: "agent_loop e q sch iteration st = agent_loop e q sch (iteration + 1) s"
      using agent_loop_continue [OF lt] by simp
    have "k = MAX_ITERATIONS - (iteration + 1)" using Suc(2) by simp
    moreover have "iteration + 1 \<le> MAX_ITERATIONS" using lt by simp
    ultimately obtain n s' where
      h: "agent_loop e q sch (iteration + 1) s = Some (n, s')" "iteration + 1 \<le> n" "n \<le> MAX_ITERATIONS"
         "(\<forall>ms. assembled_calls (chunks (llm e ms)) \<noteq> []) \<longrightarrow>
              answers s' = answers s \<and>
              (n = MAX_ITERATIONS \<or> (steps s' \<noteq> [] \<and> step_status (last (steps s')) = Error))"
      using Suc(1) [of "iteration + 1" s] by blast
    show ?thesis
      unfolding eq using h p by auto
  qed
qed


section \<open>The claims about the loop\<close>

lemma silent_iteration:
  assumes "failure (llm e (messages st)) = None"
    and "assembled_calls (chunks (llm e (messages st))) = []"
    and "assembled_thought (chunks (llm e (messages st))) = []"
  shows "\<exists>s. iterate e q sch st = Some (Break, s) \<and> answers s = answers st \<and>
           messages s = messages st \<and> executed s = executed st \<and>
           steps s = steps st @
             [\<lparr>step_id = asc ''step-'' @ show_nat (clock e (ticks st)), step_type = Thought,
               step_content = [], step_status = Complete, step_toolName = None, step_result = None\<rparr>]"
proof -
  let ?o = "open_thought e st"
  let ?ds = "chunks (llm e (messages st))"
  let ?st1 = "snd (snd (consume_stream ?ds [] [] ?o))"
  let ?s = "updateLastStep [] Complete ?st1"
  have m: "messages ?o = messages st" by simp
  have tb: "try_block e q sch ?o = Some (Inr (Break, ?s))"
    using try_block_silent [of e ?o q sch] assms by (simp only: m)
  then have it: "iterate e q sch st = Some (Break, ?s)"
    by (simp add: iterate_def)
  have ne: "steps ?o \<noteq> []" by simp
  from consume_stream_steps [OF ne, of ?ds "[]" "[]"] obtain c s where
    sh: "steps ?st1 = butlast (steps ?o) @ [(last (steps ?o))\<lparr>step_content := c, step_status := s\<rparr>]"
    by blast
  have st: "steps ?s = steps st @
             [\<lparr>step_id = asc ''step-'' @ show_nat (clock e (ticks st)), step_type = Thought,
               step_content = [], step_status = Complete, step_toolName = None, step_result = None\<rparr>]"
    by (simp add: sh)
  have k: "answers ?s = answers st \<and> messages ?s = messages st \<and> executed ?s = executed st"
    using consume_stream_keeps [of ?ds "[]" "[]" ?o] by simp
  from it st k show ?thesis by blast
qed

text \<open>
  C1, amended. In an iteration whose turn yields no structured tool call and an empty
  thought text (the rescue then finds nothing), the loop does not go on to a next
  iteration: the iteration leaves the loop at once, with the thought step complete and
  empty, no final answer emitted and no message appended, whatever is left of the budget.
\<close>

theorem empty_turn_ends_loop:
  assumes "failure (llm e (messages st)) = None"
    and "assembled_calls (chunks (llm e (messages st))) = []"
    and "assembled_thought (chunks (llm e (messages st))) = []"
    and "iteration < MAX_ITERATIONS"
  shows "rescue e [] [] st = ([], st) \<and>
         (\<exists>s. iterate e q sch st = Some (Break, s) \<and>
              agent_loop e q sch iteration st = Some (iteration + 1, s) \<and>
              answers s = answers st \<and> messages s = messages st \<and>
              steps s = steps st @
                [\<lparr>step_id = asc ''step-'' @ show_nat (clock e (ticks st)), step_type = Thought,
                  step_content = [], step_status = Complete, step_toolName = None,
                  step_result = None\<rparr>])"
proof -
  from silent_iteration [OF assms(1-3), of q sch] obtain s where
    s: "iterate e q sch st = Some (Break, s)" "answers s = answers st" "messages s = messages st"
       "steps s = steps st @
             [\<lparr>step_id = asc ''step-'' @ show_nat (clock e (ticks st)), step_type = Thought,
               step_content = [], step_status = Complete, step_toolName = None, step_result = None\<rparr>]"
    by blast
  have l: "agent_loop e q sch iteration st = Some (iteration + 1, s)"
    by (rule agent_loop_break [OF assms(4) s(1)])
  have r: "rescue e [] [] st = ([], st)"
    by (simp add: rescue_def detect_nothing_in_empty)
  from r s l show ?thesis by blast
qed

lemma silent_env_facts:
  "failure (llm (demo_env silent_turn Failed (Threw [])) ms) = None"
  "assembled_calls (chunks (llm (demo_env silent_turn Failed (Threw [])) ms)) = []"
  "assembled_thought (chunks (llm (demo_env silent_turn Failed (Threw [])) ms)) = []"
  by (simp_all add: demo_env_def silent_turn_def assembled_calls_def assembled_thought_def)

text \<open>
  C1, as the specification states it, fails: when the model's first turn is empty, the
  loop stops after one iteration, with 49 iterations of its budget left.
\<close>

theorem empty_turn_counterexample:
  "failure (llm (demo_env silent_turn Failed (Threw [])) (messages (initial_state (demo_env silent_turn Failed (Threw [])) (asc ''q'')))) = None \<and>
   assembled_calls (chunks (llm (demo_env silent_turn Failed (Threw [])) (messages (initial_state (demo_env silent_turn Failed (Threw [])) (asc ''q''))))) = [] \<and>
   assembled_thought (chunks (llm (demo_env silent_turn Failed (Threw [])) (messages (initial_state (demo_env silent_turn Failed (Threw [])) (asc ''q''))))) = [] \<and>
   map_option fst (iterate (demo_env silent_turn Failed (Threw [])) (asc ''q'') [] (initial_state (demo_env silent_turn Failed (Threw [])) (asc ''q''))) = Some Break \<and>
   map_option fst (agent_loop (demo_env silent_turn Failed (Threw [])) (asc ''q'') [] 0 (initial_state (demo_env silent_turn Failed (Threw [])) (asc ''q''))) = Some 1 \<and>
   runAgent (demo_env silent_turn Failed (Threw [])) (asc ''key'') (asc ''q'') [] =
     Inr (agent_loop (demo_env silent_turn Failed (Threw [])) (asc ''q'') [] 0 (initial_state (demo_env silent_turn Failed (Threw [])) (asc ''q''))) \<and>
   (1::nat) < MAX_ITERATIONS"
proof -
  let ?e = "demo_env silent_turn Failed (Threw [])"
  let ?st = "initial_state ?e (asc ''q'')"
  from silent_iteration [where e = ?e and st = ?st and q = "asc ''q''" and sch = "[]", OF silent_env_facts]
  obtain s where s: "iterate ?e (asc ''q'') [] ?st = Some (Break, s)" by blast
  have lt: "(0::nat) < MAX_ITERATIONS" by (simp add: MAX_ITERATIONS_def)
  have l: "agent_loop ?e (asc ''q'') [] 0 ?st = Some (0 + 1, s)"
    by (rule agent_loop_break [OF lt s])
  have r: "runAgent ?e (asc ''key'') (asc ''q'') [] = Inr (agent_loop ?e (asc ''q'') [] 0 ?st)"
    by (simp add: runAgent_def asc_def)
  show ?thesis
    using s l r by (simp add: silent_env_facts MAX_ITERATIONS_def)
qed

theorem empty_turn_ends_loop_witness:
  "failure (llm (demo_env silent_turn Failed (Threw [])) (messages (initial_state (demo_env silent_turn Failed (Threw [])) (asc ''q'')))) = None \<and>
   assembled_calls (chunks (llm (demo_env silent_turn Failed (Threw [])) (messages (initial_state (demo_env silent_turn Failed (Threw [])) (asc ''q''))))) = [] \<and>
   assembled_thought (chunks (llm (demo_env silent_turn Failed (Threw [])) (messages (initial_state (demo_env silent_turn Failed (Threw [])) (asc ''q''))))) = [] \<and>
   (7::nat) < MAX_ITERATIONS \<and>
   (\<exists>s. agent_loop (demo_env silent_turn Failed (Threw [])) (asc ''q'') [] 7 (initial_state (demo_env silent_turn Failed (Threw [])) (asc ''q'')) = Some (8, s) \<and>
        answers s = [] \<and>
        map step_status (steps s) = [Complete])"
proof -
  let ?e = "demo_env silent_turn Failed (Threw [])"
  let ?st = "initial_state ?e (asc ''q'')"
  have lt: "(7::nat) < MAX_ITERATIONS" by (simp add: MAX_ITERATIONS_def)
  from empty_turn_ends_loop [where e = ?e and st = ?st and q = "asc ''q''" and sch = "[]",
      OF silent_env_facts lt]
  obtain s where s: "agent_loop ?e (asc ''q'') [] 7 ?st = Some (7 + 1, s)" "answers s = answers ?st"
      "steps s = steps ?st @
                [\<lparr>step_id = asc ''step-'' @ show_nat (clock ?e (ticks ?st)), step_type = Thought,
                  step_content = [], step_status = Complete, step_toolName = None,
                  step_result = None\<rparr>]"
    by blast
  have "agent_loop ?e (asc ''q'') [] 7 ?st = Some (8, s) \<and> answers s = [] \<and> map step_status (steps s) = [Complete]"
    using s by (simp add: initial_state_def)
  then have "\<exists>s. agent_loop ?e (asc ''q'') [] 7 ?st = Some (8, s) \<and> answers s = [] \<and> map step_status (steps s) = [Complete]"
    by (rule exI [of _ s])
  with lt show ?thesis by (simp only: silent_env_facts simp_thms)
qed


text \<open>
  C9. With an API key, \<^verbatim>\<open>runAgent\<close> returns after at most \<open>MAX_ITERATIONS = 50\<close> iterations.
  When every turn of the model yields tool calls, no final answer is emitted, and the loop
  runs all 50 iterations unless an error thrown during a turn ends it earlier with an
  error step.
\<close>

theorem iteration_budget:
  assumes "apiKey \<noteq> []"
  shows "\<exists>n s. runAgent e apiKey q sch = Inr (Some (n, s)) \<and> n \<le> MAX_ITERATIONS \<and>
           MAX_ITERATIONS = 50 \<and>
           ((\<forall>ms. assembled_calls (chunks (llm e ms)) \<noteq> []) \<longrightarrow>
              answers s = [] \<and>
              (n = 50 \<or> (steps s \<noteq> [] \<and> step_status (last (steps s)) = Error)))"
proof -
  have "(0::nat) \<le> MAX_ITERATIONS" by simp
  from agent_loop_result [OF this, of e q sch "initial_state e q"] obtain n s where
    l: "agent_loop e q sch 0 (initial_state e q) = Some (n, s)" "n \<le> MAX_ITERATIONS"
       "(\<forall>ms. assembled_calls (chunks (llm e ms)) \<noteq> []) \<longrightarrow>
              answers s = answers (initial_state e q) \<and>
              (n = MAX_ITERATIONS \<or> (steps s \<noteq> [] \<and> step_status (last (steps s)) = Error))"
    by blast
  have r: "runAgent e apiKey q sch = Inr (Some (n, s))"
    using assms l(1) by (simp add: runAgent_def)
  have a: "answers (initial_state e q) = []" by (simp add: initial_state_def)
  have m: "MAX_ITERATIONS = 50" by (simp add: MAX_ITERATIONS_def)
  have "runAgent e apiKey q sch = Inr (Some (n, s)) \<and> n \<le> MAX_ITERATIONS \<and>
           MAX_ITERATIONS = 50 \<and>
           ((\<forall>ms. assembled_calls (chunks (llm e ms)) \<noteq> []) \<longrightarrow>
              answers s = [] \<and>
              (n = 50 \<or> (steps s \<noteq> [] \<and> step_status (last (steps s)) = Error)))"
    using r l(2,3) a m by simp
  then show ?thesis by (intro exI)
qed

lemma call_turn_calls:
  "assembled_calls (chunks (llm (demo_env (call_turn name arguments) answer outcome) ms)) \<noteq> []"
  by (simp add: demo_env_def call_turn_def assembled_calls_def merge_fragment_def buf_set_def Let_def)

lemma schema_turn_continues:
  "\<exists>s. iterate (demo_env (call_turn (asc ''get_database_schema'') (asc ''{}'')) Failed (Threw []))
          q [] st = Some (Continue, s)"
proof -
  let ?e = "demo_env (call_turn (asc ''get_database_schema'') (asc ''{}'')) Failed (Threw [])"
  let ?tc = "\<lparr>tc_id = Some (asc ''call_1''), tc_name = asc ''get_database_schema'', tc_arguments = asc ''{}''\<rparr>"
  have p: "parse_arguments ?e (asc ''{}'') = Some (JObj [], asc ''[data]'')"
    by (simp add: parse_arguments_def demo_env_def demo_js_def json_eval str_eval)
  have f: "failure (llm ?e ms) = None" for ms
    by (simp add: demo_env_def call_turn_def)
  have c: "assembled_calls (chunks (llm ?e ms)) = [Some ?tc]" for ms
    by (simp add: demo_env_def call_turn_def assembled_calls_def merge_fragment_def buf_set_def
        Let_def asc_def)
  have t: "assembled_thought (chunks (llm ?e ms)) = []" for ms
    by (simp add: demo_env_def call_turn_def assembled_thought_def)
  have d: "dispatch_all ?e q [] [Some ?tc] s =
      Some (Inr (observe ?e ?tc (schema_text []) (ResultSchema [])
        (notify (set_last (\<lambda>l. l\<lparr>step_content := asc ''[data]'', step_status := Complete\<rparr>)
           (open_action ?e ?tc s)))))" for s
    by (simp add: dispatch_call_def Let_def p run_tool_def)
  let ?o = "open_thought ?e st"
  let ?ds = "chunks (llm ?e (messages ?o))"
  let ?st1 = "snd (snd (consume_stream ?ds [] [] ?o))"
  have cs: "consume_stream ?ds [] [] ?o = ([], [Some ?tc], ?st1)"
    using consume_stream_eq [of ?ds "[]" "[]" ?o] by (simp add: c t assembled_calls_def [symmetric])
  have "\<exists>s'. try_block ?e q [] ?o = Some (Inr (Continue, s'))"
    unfolding try_block_def Let_def
    by (subst cs) (simp add: f rescue_def d del: dispatch_all.simps)
  then obtain s' where "try_block ?e q [] ?o = Some (Inr (Continue, s'))" by blast
  then have "iterate ?e q [] st = Some (Continue, s')"
    by (simp add: iterate_def)
  then show ?thesis by (rule exI [of _ s'])
qed

lemma loop_runs_full:
  assumes "\<And>st. \<exists>s. iterate e q sch st = Some (Continue, s)"
    and "iteration \<le> MAX_ITERATIONS"
  shows "\<exists>s. agent_loop e q sch iteration st = Some (MAX_ITERATIONS, s)"
  using assms(2)
proof (induction "MAX_ITERATIONS - iteration" arbitrary: iteration st)
  case 0
  then have "\<not> iteration < MAX_ITERATIONS" "iteration = MAX_ITERATIONS" by simp_all
  with agent_loop_done [of iteration e q sch st] show ?case by simp
next
  case (Suc k)
  then have lt: "iteration < MAX_ITERATIONS" by simp
  from assms(1) [of st] obtain s where s: "iterate e q sch st = Some (Continue, s)" by blast
  have "k = MAX_ITERATIONS - (iteration + 1)" "iteration + 1 \<le> MAX_ITERATIONS"
    using Suc(2) lt by simp_all
  from Suc(1) [OF this, of s] obtain s' where
    "agent_loop e q sch (iteration + 1) s = Some (MAX_ITERATIONS, s')" by blast
  then show ?case
    using agent_loop_continue [OF lt s] by simp
qed


theorem iteration_budget_witness:
  "asc ''key'' \<noteq> [] \<and>
   (\<forall>ms. assembled_calls (chunks (llm (demo_env (call_turn (asc ''get_database_schema'') (asc ''{}'')) Failed (Threw [])) ms)) \<noteq> []) \<and>
   (\<exists>s. runAgent (demo_env (call_turn (asc ''get_database_schema'') (asc ''{}'')) Failed (Threw []))
             (asc ''key'') (asc ''q'') [] = Inr (Some (50, s)) \<and> answers s = [])"
proof -
  let ?e = "demo_env (call_turn (asc ''get_database_schema'') (asc ''{}'')) Failed (Threw [])"
  have k: "asc ''key'' \<noteq> []" by (simp add: asc_def)
  have c: "\<forall>ms. assembled_calls (chunks (llm ?e ms)) \<noteq> []"
    by (simp add: call_turn_calls)
  from iteration_budget [OF k, of ?e "asc ''q''" "[]"] obtain n s where
    h: "runAgent ?e (asc ''key'') (asc ''q'') [] = Inr (Some (n, s))"
       "(\<forall>ms. assembled_calls (chunks (llm ?e ms)) \<noteq> []) \<longrightarrow>
              answers s = [] \<and>
              (n = 50 \<or> (steps s \<noteq> [] \<and> step_status (last (steps s)) = Error))"
    by blast
  have "(0::nat) \<le> MAX_ITERATIONS" by simp
  from loop_runs_full [where e = ?e and q = "asc ''q''" and sch = "[]", OF schema_turn_continues this,
      of "initial_state ?e (asc ''q'')"]
  obtain s' where "agent_loop ?e (asc ''q'') [] 0 (initial_state ?e (asc ''q'')) = Some (50, s')"
    by (auto simp add: MAX_ITERATIONS_def)
  with k have "runAgent ?e (asc ''key'') (asc ''q'') [] = Inr (Some (50, s'))"
    by (simp add: runAgent_def)
  with h(1) have n: "n = 50" by simp
  from h c n have "runAgent ?e (asc ''key'') (asc ''q'') [] = Inr (Some (50, s)) \<and> answers s = []"
    by simp
  then have "\<exists>s. runAgent ?e (asc ''key'') (asc ''q'') [] = Inr (Some (50, s)) \<and> answers s = []"
    by (rule exI [of _ s])
  with k c show ?thesis by (intro conjI)
qed

text \<open>
  C10. When the \<^verbatim>\<open>try\<close> block of an iteration throws while the last step of the log has
  status \<^verbatim>\<open>streaming\<close>, the loop ends with that iteration; the log it leaves is the log at
  the throw followed by one new step of status \<^verbatim>\<open>error\<close> with the message, so the earlier
  step still has status \<^verbatim>\<open>streaming\<close>. A failure of the model's stream is such a throw: the
  thought step of the iteration holds the text streamed so far and is still \<^verbatim>\<open>streaming\<close>.
\<close>

theorem thrown_error_leaves_streaming_step:
  assumes "iteration < MAX_ITERATIONS"
  shows
    "(try_block e q sch (open_thought e st) = Some (Inl (msg, st1)) \<and> steps st1 \<noteq> [] \<and>
      step_status (last (steps st1)) = Streaming \<longrightarrow>
        (\<exists>s. agent_loop e q sch iteration st = Some (iteration + 1, s) \<and>
             butlast (steps s) = steps st1 \<and>
             step_status (steps s ! (length (steps st1) - 1)) = Streaming \<and>
             step_status (last (steps s)) = Error \<and>
             step_content (last (steps s)) = asc ''Agent Error: '' @ msg)) \<and>
     (failure (llm e (messages st)) = Some msg \<longrightarrow>
        (\<exists>s1. try_block e q sch (open_thought e st) = Some (Inl (msg, s1)) \<and>
              steps s1 = steps st @
                [\<lparr>step_id = asc ''step-'' @ show_nat (clock e (ticks st)), step_type = Thought,
                  step_content = assembled_thought (chunks (llm e (messages st))),
                  step_status = Streaming, step_toolName = None, step_result = None\<rparr>]))"
proof (intro conjI impI)
  assume a: "try_block e q sch (open_thought e st) = Some (Inl (msg, st1)) \<and> steps st1 \<noteq> [] \<and>
      step_status (last (steps st1)) = Streaming"
  let ?s = "record_error e msg st1"
  have it: "iterate e q sch st = Some (Break, ?s)"
    using a by (simp add: iterate_def)
  have l: "agent_loop e q sch iteration st = Some (iteration + 1, ?s)"
    by (rule agent_loop_break [OF assms it])
  have n: "steps ?s ! (length (steps st1) - 1) = last (steps st1)"
    using a by (simp add: nth_append last_conv_nth)
  have "agent_loop e q sch iteration st = Some (iteration + 1, ?s) \<and>
             butlast (steps ?s) = steps st1 \<and>
             step_status (steps ?s ! (length (steps st1) - 1)) = Streaming \<and>
             step_status (last (steps ?s)) = Error \<and>
             step_content (last (steps ?s)) = asc ''Agent Error: '' @ msg"
    unfolding n using l a by simp
  then show "\<exists>s. agent_loop e q sch iteration st = Some (iteration + 1, s) \<and>
             butlast (steps s) = steps st1 \<and>
             step_status (steps s ! (length (steps st1) - 1)) = Streaming \<and>
             step_status (last (steps s)) = Error \<and>
             step_content (last (steps s)) = asc ''Agent Error: '' @ msg"
    by (rule exI [of _ ?s])
next
  assume f: "failure (llm e (messages st)) = Some msg"
  let ?o = "open_thought e st"
  let ?ds = "chunks (llm e (messages st))"
  let ?s1 = "snd (snd (consume_stream ?ds [] [] ?o))"
  have m: "messages ?o = messages st" by simp
  have tb: "try_block e q sch ?o = Some (Inl (msg, ?s1))"
    using try_block_stream_failure [of e ?o msg q sch] f by (simp only: m)
  have ne: "steps ?o \<noteq> []" by simp
  from consume_stream_steps [OF ne, of ?ds "[]" "[]"] obtain c s where
    sh: "steps ?s1 = butlast (steps ?o) @ [(last (steps ?o))\<lparr>step_content := c, step_status := s\<rparr>]"
        "s = step_status (last (steps ?o)) \<or> s = Streaming"
        "step_content (last (steps ?o)) = [] \<longrightarrow> c = [] @ assembled_thought ?ds"
    by blast
  have s: "s = Streaming" using sh(2) by auto
  have c: "c = assembled_thought ?ds" using sh(3) by simp
  have "steps ?s1 = steps st @
                [\<lparr>step_id = asc ''step-'' @ show_nat (clock e (ticks st)), step_type = Thought,
                  step_content = assembled_thought ?ds,
                  step_status = Streaming, step_toolName = None, step_result = None\<rparr>]"
    using sh(1) by (simp add: s c)
  with tb have "try_block e q sch ?o = Some (Inl (msg, ?s1)) \<and>
              steps ?s1 = steps st @
                [\<lparr>step_id = asc ''step-'' @ show_nat (clock e (ticks st)), step_type = Thought,
                  step_content = assembled_thought ?ds,
                  step_status = Streaming, step_toolName = None, step_result = None\<rparr>]"
    by (intro conjI)
  then show "\<exists>s1. try_block e q sch (open_thought e st) = Some (Inl (msg, s1)) \<and>
              steps s1 = steps st @
                [\<lparr>step_id = asc ''step-'' @ show_nat (clock e (ticks st)), step_type = Thought,
                  step_content = assembled_thought (chunks (llm e (messages st))),
                  step_status = Streaming, step_toolName = None, step_result = None\<rparr>]"
    by (rule exI [of _ ?s1])
qed


lemma broken_env_facts:
  "failure (llm (demo_env broken_turn Failed (Threw [])) ms) = Some (asc ''network error'')"
  "assembled_thought (chunks (llm (demo_env broken_turn Failed (Threw [])) ms)) = asc ''Let me look''"
  by (simp_all add: demo_env_def broken_turn_def assembled_thought_def asc_def starts_with_def)

theorem thrown_error_leaves_streaming_step_witness:
  "(0::nat) < MAX_ITERATIONS \<and>
   failure (llm (demo_env broken_turn Failed (Threw []))
              (messages (initial_state (demo_env broken_turn Failed (Threw [])) (asc ''q'')))) =
     Some (asc ''network error'') \<and>
   (\<exists>s1 s. try_block (demo_env broken_turn Failed (Threw [])) (asc ''q'') []
              (open_thought (demo_env broken_turn Failed (Threw []))
                 (initial_state (demo_env broken_turn Failed (Threw [])) (asc ''q''))) =
              Some (Inl (asc ''network error'', s1)) \<and>
           steps s1 \<noteq> [] \<and> step_status (last (steps s1)) = Streaming \<and>
           agent_loop (demo_env broken_turn Failed (Threw [])) (asc ''q'') [] 0
              (initial_state (demo_env broken_turn Failed (Threw [])) (asc ''q'')) = Some (1, s) \<and>
           map step_status (steps s) = [Streaming, Error] \<and>
           map step_content (steps s) = [asc ''Let me look'', asc ''Agent Error: network error''])"
proof -
  let ?e = "demo_env broken_turn Failed (Threw [])"
  let ?st = "initial_state ?e (asc ''q'')"
  let ?msg = "asc ''network error''"
  have lt: "(0::nat) < MAX_ITERATIONS" by (simp add: MAX_ITERATIONS_def)
  have f: "failure (llm ?e (messages ?st)) = Some ?msg" by (rule broken_env_facts)
  have st0: "steps ?st = []" by (simp add: initial_state_def)
  from thrown_error_leaves_streaming_step [OF lt, of ?e "asc ''q''" "[]" ?st ?msg] f
  obtain s1 where s1: "try_block ?e (asc ''q'') [] (open_thought ?e ?st) = Some (Inl (?msg, s1))"
    "steps s1 = steps ?st @
                [\<lparr>step_id = asc ''step-'' @ show_nat (clock ?e (ticks ?st)), step_type = Thought,
                  step_content = assembled_thought (chunks (llm ?e (messages ?st))),
                  step_status = Streaming, step_toolName = None, step_result = None\<rparr>]"
    by blast
  have a: "steps s1 \<noteq> []" "step_status (last (steps s1)) = Streaming"
    "map step_status (steps s1) = [Streaming]" "map step_content (steps s1) = [asc ''Let me look'']"
    using s1(2) by (simp_all add: st0 broken_env_facts)
  from thrown_error_leaves_streaming_step [OF lt, of ?e "asc ''q''" "[]" ?st ?msg s1] s1(1) a(1,2)
  obtain s where s: "agent_loop ?e (asc ''q'') [] 0 ?st = Some (0 + 1, s)"
    "butlast (steps s) = steps s1" "step_status (last (steps s)) = Error"
    "step_content (last (steps s)) = asc ''Agent Error: '' @ ?msg"
    by blast
  have ne: "steps s \<noteq> []" using s(2) a(1) by auto
  have sp: "steps s = steps s1 @ [last (steps s)]"
    using s(2) ne by (metis append_butlast_last_id)
  have m1: "map step_status (steps s) = [Streaming, Error]"
    by (subst sp) (simp add: a(3) s(3))
  have m2: "map step_content (steps s) = [asc ''Let me look'', asc ''Agent Error: network error'']"
    by (subst sp) (simp add: a(4) s(4) asc_def)
  have "try_block ?e (asc ''q'') [] (open_thought ?e ?st) = Some (Inl (?msg, s1)) \<and>
           steps s1 \<noteq> [] \<and> step_status (last (steps s1)) = Streaming \<and>
           agent_loop ?e (asc ''q'') [] 0 ?st = Some (1, s) \<and>
           map step_status (steps s) = [Streaming, Error] \<and>
           map step_content (steps s) = [asc ''Let me look'', asc ''Agent Error: network error'']"
    using s1(1) a(1,2) s(1) m1 m2 by simp
  then have "\<exists>s1 s. try_block ?e (asc ''q'') [] (open_thought ?e ?st) = Some (Inl (?msg, s1)) \<and>
           steps s1 \<noteq> [] \<and> step_status (last (steps s1)) = Streaming \<and>
           agent_loop ?e (asc ''q'') [] 0 ?st = Some (1, s) \<and>
           map step_status (steps s) = [Streaming, Error] \<and>
           map step_content (steps s) = [asc ''Let me look'', asc ''Agent Error: network error'']"
    by (intro exI)
  with lt f show ?thesis by (intro conjI)
qed

section \<open>Dispatch of one tool call\<close>

lemma tool_names_differ: "asc ''run_sql'' \<noteq> asc ''get_database_schema''"
  by (simp add: asc_def)

lemma run_sql_tool_error:
  assumes "fnArgs \<noteq> JNull"
    and "sanitize_value (get_prop fnArgs (asc ''query'')) = Some sql"
    and "qr_error (executeSql (js e) (alasql e (executed st)) sql) = Some err"
    and "err \<noteq> []"
  shows "run_sql_tool e q fnArgs st =
           Some (Inr (sql_error_text err, executeSql (js e) (alasql e (executed st)) sql,
                      st\<lparr>executed := executed st @ [sql]\<rparr>))"
  using assms by (simp add: run_sql_tool_def Let_def reported_error_def)

lemma sql_error_dispatch:
  assumes "tc_name tc = asc ''run_sql''"
    and "parse_arguments e (tc_arguments tc) = Some (fnArgs, shown)"
    and "fnArgs \<noteq> JNull"
    and "sanitize_value (get_prop fnArgs (asc ''query'')) = Some sql"
    and "qr_error (executeSql (js e) (alasql e (executed st)) sql) = Some err"
    and "err \<noteq> []"
  shows "dispatch_call e q sch (Some tc) st =
           Some (Inr (observe e tc (sql_error_text err)
                        (ResultQuery (executeSql (js e) (alasql e (executed st)) sql))
                        ((notify (set_last (\<lambda>l. l\<lparr>step_content := shown, step_status := Complete\<rparr>)
                                   (open_action e tc st)))\<lparr>executed := executed st @ [sql]\<rparr>)))"
proof -
  let ?st = "notify (set_last (\<lambda>l. l\<lparr>step_content := shown, step_status := Complete\<rparr>) (open_action e tc st))"
  have ex: "executed ?st = executed st" by simp
  have "run_sql_tool e q fnArgs ?st =
           Some (Inr (sql_error_text err, executeSql (js e) (alasql e (executed ?st)) sql,
                      ?st\<lparr>executed := executed ?st @ [sql]\<rparr>))"
    by (rule run_sql_tool_error) (simp_all add: assms)
  then have "run_tool e q sch tc fnArgs ?st =
           Some (Inr (observe e tc (sql_error_text err)
                        (ResultQuery (executeSql (js e) (alasql e (executed st)) sql))
                        (?st\<lparr>executed := executed st @ [sql]\<rparr>)))"
    by (simp add: run_tool_def assms(1) tool_names_differ)
  then show ?thesis
    by (simp add: dispatch_call_def Let_def assms(2))
qed

text \<open>
  C2, amended. When the query engine reports an execution error, the observation returned
  to the model is the engine's error message prefixed with \<^verbatim>\<open>SQL \<close>, the four characters
  U+6267 U+884C U+9519 U+8BEF, a colon and a space; the query result is attached to the
  observation step and the statement is recorded as executed.
\<close>

theorem sql_error_observation:
  assumes "tc_name tc = asc ''run_sql''"
    and "parse_arguments e (tc_arguments tc) = Some (fnArgs, shown)"
    and "fnArgs \<noteq> JNull"
    and "sanitize_value (get_prop fnArgs (asc ''query'')) = Some sql"
    and "qr_error (executeSql (js e) (alasql e (executed st)) sql) = Some err"
    and "err \<noteq> []"
  shows "\<exists>s. dispatch_call e q sch (Some tc) st = Some (Inr s) \<and>
           step_type (last (steps s)) = Observation \<and>
           step_content (last (steps s)) = asc ''SQL '' @ [25191, 34892, 38169, 35823] @ asc '': '' @ err \<and>
           step_result (last (steps s)) =
             Some (ResultQuery (executeSql (js e) (alasql e (executed st)) sql)) \<and>
           last (messages s) =
             ToolMessage (tc_id tc) (asc ''run_sql'')
               (asc ''SQL '' @ [25191, 34892, 38169, 35823] @ asc '': '' @ err) \<and>
           executed s = executed st @ [sql]"
proof -
  let ?s = "observe e tc (sql_error_text err)
                        (ResultQuery (executeSql (js e) (alasql e (executed st)) sql))
                        ((notify (set_last (\<lambda>l. l\<lparr>step_content := shown, step_status := Complete\<rparr>)
                                   (open_action e tc st)))\<lparr>executed := executed st @ [sql]\<rparr>)"
  have d: "dispatch_call e q sch (Some tc) st = Some (Inr ?s)"
    by (rule sql_error_dispatch [OF assms])
  have "dispatch_call e q sch (Some tc) st = Some (Inr ?s) \<and>
           step_type (last (steps ?s)) = Observation \<and>
           step_content (last (steps ?s)) = asc ''SQL '' @ [25191, 34892, 38169, 35823] @ asc '': '' @ err \<and>
           step_result (last (steps ?s)) =
             Some (ResultQuery (executeSql (js e) (alasql e (executed st)) sql)) \<and>
           last (messages ?s) =
             ToolMessage (tc_id tc) (asc ''run_sql'')
               (asc ''SQL '' @ [25191, 34892, 38169, 35823] @ asc '': '' @ err) \<and>
           executed ?s = executed st @ [sql]"
    using d by (simp add: sql_error_text_def assms(1))
  then show ?thesis by (rule exI [of _ ?s])
qed

lemma demo_sql_facts:
  \<open>tc_name (demo_call (asc ''run_sql'') (asc ''{"query":"SELECT 1"}'')) = asc ''run_sql''\<close>
  \<open>parse_arguments (demo_env silent_turn Failed (Threw (asc ''boom'')))
     (tc_arguments (demo_call (asc ''run_sql'') (asc ''{"query":"SELECT 1"}''))) =
     Some (JObj [(asc ''query'', JStr (asc ''SELECT 1''))], asc ''[data]'')\<close>
  \<open>JObj [(asc ''query'', JStr (asc ''SELECT 1''))] \<noteq> JNull\<close>
  \<open>sanitize_value (get_prop (JObj [(asc ''query'', JStr (asc ''SELECT 1''))]) (asc ''query'')) =
     Some (JStr (asc ''SELECT 1''))\<close>
  \<open>qr_error (executeSql (js (demo_env silent_turn Failed (Threw (asc ''boom''))))
      (alasql (demo_env silent_turn Failed (Threw (asc ''boom''))) h) (JStr (asc ''SELECT 1''))) =
     Some (asc ''boom'')\<close>
  \<open>asc ''boom'' \<noteq> []\<close>
proof -
  show \<open>tc_name (demo_call (asc ''run_sql'') (asc ''{"query":"SELECT 1"}'')) = asc ''run_sql''\<close>
    by (simp add: demo_call_def)
  show \<open>parse_arguments (demo_env silent_turn Failed (Threw (asc ''boom'')))
     (tc_arguments (demo_call (asc ''run_sql'') (asc ''{"query":"SELECT 1"}''))) =
     Some (JObj [(asc ''query'', JStr (asc ''SELECT 1''))], asc ''[data]'')\<close>
    by (simp add: parse_arguments_def demo_call_def demo_env_def demo_js_def json_eval str_eval)
  show \<open>JObj [(asc ''query'', JStr (asc ''SELECT 1''))] \<noteq> JNull\<close> by simp
  show \<open>sanitize_value (get_prop (JObj [(asc ''query'', JStr (asc ''SELECT 1''))]) (asc ''query'')) =
     Some (JStr (asc ''SELECT 1''))\<close>
    by (simp add: sanitize_value_def str_eval sanitize_eval)
  show \<open>qr_error (executeSql (js (demo_env silent_turn Failed (Threw (asc ''boom''))))
      (alasql (demo_env silent_turn Failed (Threw (asc ''boom''))) h) (JStr (asc ''SELECT 1''))) =
     Some (asc ''boom'')\<close>
    by (simp add: executeSql_def demo_env_def caught_def asc_def)
  show \<open>asc ''boom'' \<noteq> []\<close> by (simp add: asc_def)
qed

text \<open>
  C2, as the specification states it, fails: the engine's message \<^verbatim>\<open>boom\<close> reaches the model
  with a prefix.
\<close>

theorem sql_error_counterexample:
  \<open>qr_error (executeSql (js (demo_env silent_turn Failed (Threw (asc ''boom''))))
      (alasql (demo_env silent_turn Failed (Threw (asc ''boom''))) []) (JStr (asc ''SELECT 1''))) =
     Some (asc ''boom'') \<and>
   last_content (dispatch_call (demo_env silent_turn Failed (Threw (asc ''boom''))) (asc ''q'') []
      (Some (demo_call (asc ''run_sql'') (asc ''{"query":"SELECT 1"}'')))
      (initial_state (demo_env silent_turn Failed (Threw (asc ''boom''))) (asc ''q''))) =
     Some (asc ''SQL '' @ [25191, 34892, 38169, 35823] @ asc '': boom'') \<and>
   asc ''SQL '' @ [25191, 34892, 38169, 35823] @ asc '': boom'' \<noteq> asc ''boom''\<close>
proof -
  let ?e = "demo_env silent_turn Failed (Threw (asc ''boom''))"
  let ?st = "initial_state ?e (asc ''q'')"
  note d = sql_error_dispatch [where e = ?e and st = ?st and q = "asc ''q''" and sch = "[]",
      OF demo_sql_facts]
  have \<open>last_content (dispatch_call ?e (asc ''q'') []
      (Some (demo_call (asc ''run_sql'') (asc ''{"query":"SELECT 1"}''))) ?st) =
     Some (asc ''SQL '' @ [25191, 34892, 38169, 35823] @ asc '': boom'')\<close>
    unfolding d by (simp add: last_content_def sql_error_text_def asc_def)
  moreover have \<open>asc ''SQL '' @ [25191, 34892, 38169, 35823] @ asc '': boom'' \<noteq> asc ''boom''\<close>
    by (simp add: asc_def)
  ultimately show ?thesis using demo_sql_facts(5) [of "[]"] by (intro conjI)
qed

theorem sql_error_observation_witness:
  \<open>tc_name (demo_call (asc ''run_sql'') (asc ''{"query":"SELECT 1"}'')) = asc ''run_sql'' \<and>
   parse_arguments (demo_env silent_turn Failed (Threw (asc ''boom'')))
     (tc_arguments (demo_call (asc ''run_sql'') (asc ''{"query":"SELECT 1"}''))) =
     Some (JObj [(asc ''query'', JStr (asc ''SELECT 1''))], asc ''[data]'') \<and>
   JObj [(asc ''query'', JStr (asc ''SELECT 1''))] \<noteq> JNull \<and>
   sanitize_value (get_prop (JObj [(asc ''query'', JStr (asc ''SELECT 1''))]) (asc ''query'')) =
     Some (JStr (asc ''SELECT 1'')) \<and>
   qr_error (executeSql (js (demo_env silent_turn Failed (Threw (asc ''boom''))))
      (alasql (demo_env silent_turn Failed (Threw (asc ''boom'')))
         (executed (initial_state (demo_env silent_turn Failed (Threw (asc ''boom''))) (asc ''q''))))
      (JStr (asc ''SELECT 1''))) = Some (asc ''boom'') \<and>
   asc ''boom'' \<noteq> [] \<and>
   (\<exists>s. dispatch_call (demo_env silent_turn Failed (Threw (asc ''boom''))) (asc ''q'') []
          (Some (demo_call (asc ''run_sql'') (asc ''{"query":"SELECT 1"}'')))
          (initial_state (demo_env silent_turn Failed (Threw (asc ''boom''))) (asc ''q'')) = Some (Inr s) \<and>
        step_type (last (steps s)) = Observation \<and>
        step_content (last (steps s)) = asc ''SQL '' @ [25191, 34892, 38169, 35823] @ asc '': '' @ asc ''boom'' \<and>
        executed s = [JStr (asc ''SELECT 1'')])\<close>
proof -
  let ?e = "demo_env silent_turn Failed (Threw (asc ''boom''))"
  let ?st = "initial_state ?e (asc ''q'')"
  have ex: "executed ?st = []" by (simp add: initial_state_def)
  from sql_error_observation [where e = ?e and st = ?st and q = "asc ''q''" and sch = "[]",
      OF demo_sql_facts]
  obtain s where s: \<open>dispatch_call ?e (asc ''q'') []
          (Some (demo_call (asc ''run_sql'') (asc ''{"query":"SELECT 1"}''))) ?st = Some (Inr s)\<close>
        \<open>step_type (last (steps s)) = Observation\<close>
        \<open>step_content (last (steps s)) = asc ''SQL '' @ [25191, 34892, 38169, 35823] @ asc '': '' @ asc ''boom''\<close>
        \<open>executed s = executed ?st @ [JStr (asc ''SELECT 1'')]\<close>
    by blast
  have \<open>dispatch_call ?e (asc ''q'') []
          (Some (demo_call (asc ''run_sql'') (asc ''{"query":"SELECT 1"}''))) ?st = Some (Inr s) \<and>
        step_type (last (steps s)) = Observation \<and>
        step_content (last (steps s)) = asc ''SQL '' @ [25191, 34892, 38169, 35823] @ asc '': '' @ asc ''boom'' \<and>
        executed s = [JStr (asc ''SELECT 1'')]\<close>
    using s by (simp add: ex)
  then have \<open>\<exists>s. dispatch_call ?e (asc ''q'') []
          (Some (demo_call (asc ''run_sql'') (asc ''{"query":"SELECT 1"}''))) ?st = Some (Inr s) \<and>
        step_type (last (steps s)) = Observation \<and>
        step_content (last (steps s)) = asc ''SQL '' @ [25191, 34892, 38169, 35823] @ asc '': '' @ asc ''boom'' \<and>
        executed s = [JStr (asc ''SELECT 1'')]\<close>
    by (rule exI [of _ s])
  with demo_sql_facts(1-4) demo_sql_facts(5) [of "executed ?st"] demo_sql_facts(6)
  show ?thesis by (intro conjI)
qed


lemma malformed_dispatch:
  assumes "json_parse (if tc_arguments tc = [] then asc ''{}'' else tc_arguments tc) = None"
  shows "dispatch_call e q sch (Some tc) st =
           Some (Inr (observe e tc invalid_json_text ResultNull
                    (notify (set_last (\<lambda>l. l\<lparr>step_content := asc ''Error parsing: '' @ tc_arguments tc,
                                              step_status := Error\<rparr>) (open_action e tc st)))))"
  using assms by (simp add: dispatch_call_def parse_arguments_def Let_def)

text \<open>
  C8. A tool call whose argument text does not parse as JSON yields no thrown error: its
  dispatch appends exactly two steps, an action step with status \<^verbatim>\<open>error\<close> that carries the
  raw argument text and an observation step with the fixed error text and no result; no
  statement reaches the query engine; the tool message with the error text is appended;
  and the loop over the tool calls of the turn goes on with the next call.
\<close>

theorem malformed_arguments:
  assumes "json_parse (if tc_arguments tc = [] then asc ''{}'' else tc_arguments tc) = None"
  shows "\<exists>s. dispatch_call e q sch (Some tc) st = Some (Inr s) \<and>
           steps s = steps st @
             [\<lparr>step_id = asc ''action-'' @ show_nat (clock e (ticks st)), step_type = Action,
               step_content = asc ''Error parsing: '' @ tc_arguments tc, step_status = Error,
               step_toolName = Some (tc_name tc), step_result = None\<rparr>,
              \<lparr>step_id = asc ''obs-'' @ show_nat (clock e (ticks st + 1)), step_type = Observation,
               step_content = asc ''Error: Invalid JSON arguments provided for tool call.'',
               step_status = Complete, step_toolName = None, step_result = Some ResultNull\<rparr>] \<and>
           length (filter (\<lambda>x. step_type x = Action \<and> step_status x = Error)
                     (drop (length (steps st)) (steps s))) = 1 \<and>
           executed s = executed st \<and> answers s = answers st \<and>
           messages s = messages st @
             [ToolMessage (tc_id tc) (tc_name tc)
                (asc ''Error: Invalid JSON arguments provided for tool call.'')] \<and>
           dispatch_all e q sch (Some tc # rest) st = dispatch_all e q sch rest s"
proof -
  let ?s = "observe e tc invalid_json_text ResultNull
                    (notify (set_last (\<lambda>l. l\<lparr>step_content := asc ''Error parsing: '' @ tc_arguments tc,
                                              step_status := Error\<rparr>) (open_action e tc st)))"
  have d: "dispatch_call e q sch (Some tc) st = Some (Inr ?s)"
    by (rule malformed_dispatch [OF assms])
  have st: "steps ?s = steps st @
             [\<lparr>step_id = asc ''action-'' @ show_nat (clock e (ticks st)), step_type = Action,
               step_content = asc ''Error parsing: '' @ tc_arguments tc, step_status = Error,
               step_toolName = Some (tc_name tc), step_result = None\<rparr>,
              \<lparr>step_id = asc ''obs-'' @ show_nat (clock e (ticks st + 1)), step_type = Observation,
               step_content = asc ''Error: Invalid JSON arguments provided for tool call.'',
               step_status = Complete, step_toolName = None, step_result = Some ResultNull\<rparr>]"
    by (simp add: invalid_json_text_def)
  have one: "length (filter (\<lambda>x. step_type x = Action \<and> step_status x = Error)
                     (drop (length (steps st)) (steps ?s))) = 1"
    by (simp only: st) simp
  have k: "executed ?s = executed st" "answers ?s = answers st"
    "messages ?s = messages st @
             [ToolMessage (tc_id tc) (tc_name tc)
                (asc ''Error: Invalid JSON arguments provided for tool call.'')]"
    by (simp_all add: invalid_json_text_def)
  have a: "dispatch_all e q sch (Some tc # rest) st = dispatch_all e q sch rest ?s"
    by (simp add: d)
  from d st one k a show ?thesis by (intro exI [of _ ?s] conjI)
qed

lemma demo_bad_arguments:
  "json_parse (if tc_arguments (demo_call (asc ''run_sql'') (asc ''{bad'')) = [] then asc ''{}''
               else tc_arguments (demo_call (asc ''run_sql'') (asc ''{bad''))) = None"
  by (simp add: demo_call_def json_eval str_eval)

lemma demo_schema_dispatch:
  "\<exists>s2. dispatch_call (demo_env silent_turn Failed (Threw [])) q []
           (Some (demo_call (asc ''get_database_schema'') (asc ''{}''))) s = Some (Inr s2) \<and>
         map step_type (steps s2) = map step_type (steps s) @ [Action, Observation] \<and>
         map step_status (steps s2) = map step_status (steps s) @ [Complete, Complete]"
proof -
  have p: "parse_arguments (demo_env silent_turn Failed (Threw []))
             (tc_arguments (demo_call (asc ''get_database_schema'') (asc ''{}''))) =
           Some (JObj [], asc ''[data]'')"
    by (simp add: parse_arguments_def demo_call_def demo_env_def demo_js_def json_eval str_eval)
  show ?thesis
    by (simp add: dispatch_call_def Let_def p run_tool_def) (simp add: demo_call_def)
qed

theorem malformed_arguments_witness:
  "json_parse (if tc_arguments (demo_call (asc ''run_sql'') (asc ''{bad'')) = [] then asc ''{}''
               else tc_arguments (demo_call (asc ''run_sql'') (asc ''{bad''))) = None \<and>
   (\<exists>s s2. dispatch_call (demo_env silent_turn Failed (Threw [])) (asc ''q'') []
             (Some (demo_call (asc ''run_sql'') (asc ''{bad'')))
             (initial_state (demo_env silent_turn Failed (Threw [])) (asc ''q'')) = Some (Inr s) \<and>
           map step_type (steps s) = [Action, Observation] \<and>
           map step_status (steps s) = [Error, Complete] \<and>
           executed s = [] \<and>
           dispatch_all (demo_env silent_turn Failed (Threw [])) (asc ''q'') []
             [Some (demo_call (asc ''run_sql'') (asc ''{bad'')),
              Some (demo_call (asc ''get_database_schema'') (asc ''{}''))]
             (initial_state (demo_env silent_turn Failed (Threw [])) (asc ''q'')) = Some (Inr s2) \<and>
           map step_type (steps s2) = [Action, Observation, Action, Observation] \<and>
           map step_status (steps s2) = [Error, Complete, Complete, Complete])"
proof -
  let ?e = "demo_env silent_turn Failed (Threw [])"
  let ?st = "initial_state ?e (asc ''q'')"
  let ?bad = "demo_call (asc ''run_sql'') (asc ''{bad'')"
  let ?ok = "demo_call (asc ''get_database_schema'') (asc ''{}'')"
  have i: "steps ?st = []" "executed ?st = []" by (simp_all add: initial_state_def)
  from malformed_arguments [OF demo_bad_arguments, of ?e "asc ''q''" "[]" ?st "[Some ?ok]"]
  obtain s where s: "dispatch_call ?e (asc ''q'') [] (Some ?bad) ?st = Some (Inr s)"
      "steps s = steps ?st @
             [\<lparr>step_id = asc ''action-'' @ show_nat (clock ?e (ticks ?st)), step_type = Action,
               step_content = asc ''Error parsing: '' @ tc_arguments ?bad, step_status = Error,
               step_toolName = Some (tc_name ?bad), step_result = None\<rparr>,
              \<lparr>step_id = asc ''obs-'' @ show_nat (clock ?e (ticks ?st + 1)), step_type = Observation,
               step_content = asc ''Error: Invalid JSON arguments provided for tool call.'',
               step_status = Complete, step_toolName = None, step_result = Some ResultNull\<rparr>]"
      "executed s = executed ?st"
      "dispatch_all ?e (asc ''q'') [] (Some ?bad # [Some ?ok]) ?st = dispatch_all ?e (asc ''q'') [] [Some ?ok] s"
    by blast
  from demo_schema_dispatch [of "asc ''q''" s] obtain s2 where
    s2: "dispatch_call ?e (asc ''q'') [] (Some ?ok) s = Some (Inr s2)"
        "map step_type (steps s2) = map step_type (steps s) @ [Action, Observation]"
        "map step_status (steps s2) = map step_status (steps s) @ [Complete, Complete]"
    by blast
  have t: "map step_type (steps s) = [Action, Observation]" "map step_status (steps s) = [Error, Complete]"
    by (simp_all add: s(2) i)
  have a: "dispatch_all ?e (asc ''q'') [] [Some ?bad, Some ?ok] ?st = Some (Inr s2)"
    by (simp add: s(1) s2(1))
  have "dispatch_call ?e (asc ''q'') [] (Some ?bad) ?st = Some (Inr s) \<and>
           map step_type (steps s) = [Action, Observation] \<and>
           map step_status (steps s) = [Error, Complete] \<and>
           executed s = [] \<and>
           dispatch_all ?e (asc ''q'') [] [Some ?bad, Some ?ok] ?st = Some (Inr s2) \<and>
           map step_type (steps s2) = [Action, Observation, Action, Observation] \<and>
           map step_status (steps s2) = [Error, Complete, Complete, Complete]"
    using s(1) t s(3) i(2) a s2(2,3) by simp
  then have "\<exists>s s2. dispatch_call ?e (asc ''q'') [] (Some ?bad) ?st = Some (Inr s) \<and>
           map step_type (steps s) = [Action, Observation] \<and>
           map step_status (steps s) = [Error, Complete] \<and>
           executed s = [] \<and>
           dispatch_all ?e (asc ''q'') [] [Some ?bad, Some ?ok] ?st = Some (Inr s2) \<and>
           map step_type (steps s2) = [Action, Observation, Action, Observation] \<and>
           map step_status (steps s2) = [Error, Complete, Complete, Complete]"
    by (intro exI)
  with demo_bad_arguments show ?thesis by (intro conjI)
qed


end
